theory Spec2Isabelle
  imports Main "HOL-Library.Multiset" "HOL-Library.Char_ord" "HOL-Library.List_Lexorder"
begin

section \<open>Data model (lib/types.ts and the persisted tables)\<close>

text \<open>
  A row of the \<open>todos\<close> table, as SQLite hands it to the data layer: the four columns of
  version 1 are NOT NULL, the three columns of version 2 are nullable (\<open>None\<close> is NULL).
  \<open>done\<close> is the stored integer (0 or 1), timestamps are the stored text.
\<close>

record todo_row =
  row_id :: string
  row_text :: string
  row_done :: int
  row_createdAt :: string
  row_listId :: "string option"
  row_notes :: "string option"
  row_dueDate :: "string option"

text \<open>A JavaScript \<open>Date\<close>: a time value in milliseconds, or Invalid Date.\<close>

datatype date = Instant int | InvalidDate

text \<open>
  \<open>TodoItem\<close> as the data layer returns it: the row spread into an object, with
  \<open>createdAt\<close> and \<open>dueDate\<close> replaced by \<open>Date\<close> values. \<open>done\<close> is spread unchanged, so
  it is the stored integer (0 is falsy, 1 is truthy); \<open>None\<close> stands for null and
  undefined alike.
\<close>

record TodoItem =
  item_id :: string
  item_text :: string
  item_done :: int
  item_createdAt :: date
  item_listId :: "string option"
  item_notes :: "string option"
  item_dueDate :: "date option"

record TodoList =
  list_id :: string
  list_name :: string

text \<open>
  The table \<open>todos\<close> with its schema: the version-1 columns always exist, each version-2
  column exists or not. A column that does not exist holds \<open>None\<close> in every row.
  Rows are kept in rowid (insertion) order.
\<close>

record todos_table =
  has_listId :: bool
  has_notes :: bool
  has_dueDate :: bool
  rows :: "todo_row list"

text \<open>The store: the \<open>user_version\<close> header field and the two tables, each present or not.\<close>

record store =
  user_version :: int
  todos :: "todos_table option"
  todo_lists :: "TodoList list option"

datatype error =
  NoSuchTable | NoSuchColumn | DuplicateColumn | ConstraintPrimaryKey | RangeError

text \<open>
  The outcome of an asynchronous operation of the data layer: it resolves with a value, or
  rejects with a fault; either way the store is what the statements run so far left.
\<close>

datatype 'a outcome = Ok 'a store | Fault error store

fun store_of :: "'a outcome \<Rightarrow> store" where
  "store_of (Ok _ s) = s"
| "store_of (Fault _ s) = s"

section \<open>The JavaScript Date interface the data layer consumes\<close>

text \<open>
  \<open>Date.prototype.toISOString\<close> on a valid time value and \<open>new Date(string)\<close> belong to the
  host, not to the repository: they are parameters of the model.
\<close>

record js_date =
  iso_of :: "int \<Rightarrow> string"
  date_of :: "string \<Rightarrow> date"

text \<open>\<open>d.toISOString()\<close> throws a RangeError on Invalid Date.\<close>

definition toISOString :: "js_date \<Rightarrow> date \<Rightarrow> error + string" where
  "toISOString api d = (case d of Instant t \<Rightarrow> Inr (iso_of api t) | InvalidDate \<Rightarrow> Inl RangeError)"

text \<open>JavaScript truthiness of a string or null: null, undefined and the empty string are falsy.\<close>

definition truthy :: "string option \<Rightarrow> bool" where
  "truthy v = (case v of None \<Rightarrow> False | Some x \<Rightarrow> x \<noteq> [])"

text \<open>\<open>v || null\<close> on a string, null or undefined.\<close>

definition or_null :: "string option \<Rightarrow> string option" where
  "or_null v = (if truthy v then v else None)"

section \<open>SQL statements\<close>

text \<open>
  One statement either changes the store or fails and leaves it as it was.
  \<open>execAsync\<close> runs the statements of its script in order, each committed on its own,
  and rejects at the first one that fails.
\<close>

type_synonym stmt = "store \<Rightarrow> error + store"

fun execAsync :: "stmt list \<Rightarrow> store \<Rightarrow> unit outcome" where
  "execAsync [] s = Ok () s"
| "execAsync (st # sts) s = (case st s of Inl e \<Rightarrow> Fault e s | Inr s' \<Rightarrow> execAsync sts s')"

text \<open>\<open>try { await db.execAsync(st) } catch (e) { console.log(...) }\<close>\<close>

definition try_execAsync :: "stmt list \<Rightarrow> store \<Rightarrow> store" where
  "try_execAsync sts s = store_of (execAsync sts s)"

text \<open>\<open>CREATE TABLE IF NOT EXISTS todos (id, text, done, createdAt)\<close>\<close>

definition create_todos :: stmt where
  "create_todos s =
     (case todos s of
        None \<Rightarrow> Inr (s\<lparr>todos := Some \<lparr>has_listId = False, has_notes = False,
                                       has_dueDate = False, rows = []\<rparr>\<rparr>)
      | Some _ \<Rightarrow> Inr s)"

text \<open>\<open>INSERT INTO todos (id, text, done, createdAt) VALUES (...)\<close>; \<open>id\<close> is the primary key.\<close>

definition insert_todo4 :: "string \<Rightarrow> string \<Rightarrow> int \<Rightarrow> string \<Rightarrow> stmt" where
  "insert_todo4 i txt d c s =
     (case todos s of
        None \<Rightarrow> Inl NoSuchTable
      | Some t \<Rightarrow>
          if i \<in> set (map row_id (rows t)) then Inl ConstraintPrimaryKey
          else Inr (s\<lparr>todos := Some (t\<lparr>rows := rows t @
                 [\<lparr>row_id = i, row_text = txt, row_done = d, row_createdAt = c,
                   row_listId = None, row_notes = None, row_dueDate = None\<rparr>]\<rparr>)\<rparr>))"

text \<open>\<open>CREATE TABLE IF NOT EXISTS todo_lists (id, name)\<close>\<close>

definition create_todo_lists :: stmt where
  "create_todo_lists s =
     (case todo_lists s of None \<Rightarrow> Inr (s\<lparr>todo_lists := Some []\<rparr>) | Some _ \<Rightarrow> Inr s)"

text \<open>\<open>ALTER TABLE todos ADD COLUMN c TEXT\<close>: the new column is NULL in every row.\<close>

definition add_listId :: stmt where
  "add_listId s =
     (case todos s of
        None \<Rightarrow> Inl NoSuchTable
      | Some t \<Rightarrow>
          if has_listId t then Inl DuplicateColumn
          else Inr (s\<lparr>todos := Some (t\<lparr>has_listId := True,
                 rows := map (\<lambda>r. r\<lparr>row_listId := None\<rparr>) (rows t)\<rparr>)\<rparr>))"

definition add_notes :: stmt where
  "add_notes s =
     (case todos s of
        None \<Rightarrow> Inl NoSuchTable
      | Some t \<Rightarrow>
          if has_notes t then Inl DuplicateColumn
          else Inr (s\<lparr>todos := Some (t\<lparr>has_notes := True,
                 rows := map (\<lambda>r. r\<lparr>row_notes := None\<rparr>) (rows t)\<rparr>)\<rparr>))"

definition add_dueDate :: stmt where
  "add_dueDate s =
     (case todos s of
        None \<Rightarrow> Inl NoSuchTable
      | Some t \<Rightarrow>
          if has_dueDate t then Inl DuplicateColumn
          else Inr (s\<lparr>todos := Some (t\<lparr>has_dueDate := True,
                 rows := map (\<lambda>r. r\<lparr>row_dueDate := None\<rparr>) (rows t)\<rparr>)\<rparr>))"

text \<open>\<open>SELECT COUNT(*) as count FROM todo_lists WHERE id = 'default-list'\<close>, first row.\<close>

definition count_default_list :: "store \<Rightarrow> error + nat option" where
  "count_default_list s =
     (case todo_lists s of
        None \<Rightarrow> Inl NoSuchTable
      | Some ls \<Rightarrow> Inr (Some (length (filter (\<lambda>l. list_id l = ''default-list'') ls))))"

text \<open>\<open>INSERT INTO todo_lists (id, name) VALUES (i, n)\<close>\<close>

definition insert_list :: "string \<Rightarrow> string \<Rightarrow> stmt" where
  "insert_list i n s =
     (case todo_lists s of
        None \<Rightarrow> Inl NoSuchTable
      | Some ls \<Rightarrow>
          if i \<in> set (map list_id ls) then Inl ConstraintPrimaryKey
          else Inr (s\<lparr>todo_lists := Some (ls @ [\<lparr>list_id = i, list_name = n\<rparr>])\<rparr>))"

text \<open>\<open>UPDATE todos SET listId = 'default-list' WHERE listId IS NULL\<close>\<close>

definition backfill_listId :: stmt where
  "backfill_listId s =
     (case todos s of
        None \<Rightarrow> Inl NoSuchTable
      | Some t \<Rightarrow>
          if \<not> has_listId t then Inl NoSuchColumn
          else Inr (s\<lparr>todos := Some (t\<lparr>rows :=
                 map (\<lambda>r. if row_listId r = None then r\<lparr>row_listId := Some ''default-list''\<rparr> else r)
                   (rows t)\<rparr>)\<rparr>))"

text \<open>\<open>PRAGMA user_version = v\<close>\<close>

definition set_user_version :: "int \<Rightarrow> stmt" where
  "set_user_version v s = Inr (s\<lparr>user_version := v\<rparr>)"

text \<open>\<open>PRAGMA user_version\<close>, first row: the pragma always yields one row.\<close>

definition get_user_version :: "store \<Rightarrow> int option" where
  "get_user_version s = Some (user_version s)"

section \<open>Schema migration (lib/db.ts: migrateDB, initializeDB, upgradeToVersion2)\<close>

definition DATABASE_VERSION :: int where
  "DATABASE_VERSION = 2"

text \<open>
  \<open>initializeDB\<close>: the three ids are what the three calls of \<open>crypto.randomUUID()\<close> return.
  (\<open>PRAGMA journal_mode = WAL\<close> changes no table and no version and is left out.)
\<close>

definition initializeDB :: "string \<times> string \<times> string \<Rightarrow> store \<Rightarrow> unit outcome" where
  "initializeDB ids s =
     (case ids of (todo1Id, todo2Id, todo3Id) \<Rightarrow>
        execAsync
          [create_todos,
           insert_todo4 todo1Id ''Sample Todo from DB'' 0 ''2023-01-01T00:00:00Z'',
           insert_todo4 todo2Id ''Sample Todo 2 from DB'' 1 ''2023-01-02T00:00:00Z'',
           insert_todo4 todo3Id ''Sample Todo 3 from DB'' 0 ''2023-01-03T00:00:00Z''] s)"

definition upgradeToVersion2 :: "store \<Rightarrow> unit outcome" where
  "upgradeToVersion2 s =
     (case execAsync [create_todo_lists] s of
        Fault e s1 \<Rightarrow> Fault e s1
      | Ok _ s1 \<Rightarrow>
          let s2 = try_execAsync [add_listId] s1;
              s3 = try_execAsync [add_notes] s2;
              s4 = try_execAsync [add_dueDate] s3
          in (case count_default_list s4 of
                Inl e \<Rightarrow> Fault e s4
              | Inr defaultListExists \<Rightarrow>
                  (case (if defaultListExists = None \<or> defaultListExists = Some 0
                         then execAsync [insert_list ''default-list'' ''Todas as Tarefas''] s4
                         else Ok () s4) of
                     Fault e s5 \<Rightarrow> Fault e s5
                   | Ok _ s5 \<Rightarrow> execAsync [backfill_listId] s5)))"

text \<open>\<open>userVersionRow?.user_version ?? 0\<close>\<close>

definition currentDbVersion :: "store \<Rightarrow> int" where
  "currentDbVersion s = (case get_user_version s of None \<Rightarrow> 0 | Some v \<Rightarrow> v)"

text \<open>
  The two guarded blocks of \<open>migrateDB\<close>; each takes the local variable
  \<open>currentDbVersion\<close> and resolves with its new value.
\<close>

definition run_initial :: "string \<times> string \<times> string \<Rightarrow> int \<Rightarrow> store \<Rightarrow> int outcome" where
  "run_initial ids cur s =
     (if cur = 0
      then (case initializeDB ids s of Fault e s' \<Rightarrow> Fault e s' | Ok _ s' \<Rightarrow> Ok 1 s')
      else Ok cur s)"

definition run_upgrade :: "int \<Rightarrow> store \<Rightarrow> int outcome" where
  "run_upgrade cur s =
     (if cur = 1
      then (case upgradeToVersion2 s of Fault e s' \<Rightarrow> Fault e s' | Ok _ s' \<Rightarrow> Ok 2 s')
      else Ok cur s)"

definition migrateDB :: "string \<times> string \<times> string \<Rightarrow> store \<Rightarrow> unit outcome" where
  "migrateDB ids s =
     (let cur = currentDbVersion s in
      if cur = DATABASE_VERSION then Ok () s
      else (case run_initial ids cur s of
              Fault e s1 \<Rightarrow> Fault e s1
            | Ok cur1 s1 \<Rightarrow>
                (case run_upgrade cur1 s1 of
                   Fault e s2 \<Rightarrow> Fault e s2
                 | Ok cur2 s2 \<Rightarrow> execAsync [set_user_version DATABASE_VERSION] s2)))"

text \<open>
  The program points of \<open>migrateDB\<close>, for reasoning about the order of its steps: at each
  point reached, the value of the local variable \<open>currentDbVersion\<close> and the persisted
  \<open>user_version\<close>. The points are: after the version is read, after the first guarded
  block, after the second, and after the closing \<open>PRAGMA user_version\<close>. A fault ends
  the list where it happens.
\<close>

definition migrateDB_points :: "string \<times> string \<times> string \<Rightarrow> store \<Rightarrow> (int \<times> int) list" where
  "migrateDB_points ids s =
     (let cur = currentDbVersion s in
      (cur, user_version s) #
      (if cur = DATABASE_VERSION then []
       else (case run_initial ids cur s of
               Fault e s1 \<Rightarrow> []
             | Ok cur1 s1 \<Rightarrow>
                 (cur1, user_version s1) #
                 (case run_upgrade cur1 s1 of
                    Fault e s2 \<Rightarrow> []
                  | Ok cur2 s2 \<Rightarrow>
                      (cur2, user_version s2) #
                      [(cur2, user_version (store_of (execAsync [set_user_version DATABASE_VERSION] s2)))]))))"

text \<open>A sequence of versions that moves one step at a time: each next value is the same or one more.\<close>

fun stepwise :: "int list \<Rightarrow> bool" where
  "stepwise (a # b # xs) = ((b = a \<or> b = a + 1) \<and> stepwise (b # xs))"
| "stepwise _ = True"

text \<open>A store on which nothing has run yet: no table, version 0.\<close>

definition fresh_store :: store where
  "fresh_store = \<lparr>user_version = 0, todos = None, todo_lists = None\<rparr>"

section \<open>Data access layer (lib/db.ts)\<close>

text \<open>
  The conversion every read and write ends with:
  \<open>{...row, createdAt: new Date(row.createdAt), dueDate: row.dueDate ? new Date(row.dueDate) : undefined}\<close>
\<close>

definition to_item :: "js_date \<Rightarrow> todo_row \<Rightarrow> TodoItem" where
  "to_item api r =
     \<lparr>item_id = row_id r, item_text = row_text r, item_done = row_done r,
      item_createdAt = date_of api (row_createdAt r),
      item_listId = row_listId r, item_notes = row_notes r,
      item_dueDate = (case row_dueDate r of
                        None \<Rightarrow> None
                      | Some d \<Rightarrow> if truthy (Some d) then Some (date_of api d) else None)\<rparr>"

text \<open>\<open>getAllAsync\<close> and \<open>getFirstAsync\<close> on the rows a statement yields.\<close>

definition getFirst :: "'a list \<Rightarrow> 'a option" where
  "getFirst xs = (case xs of [] \<Rightarrow> None | x # _ \<Rightarrow> Some x)"

text \<open>\<open>SELECT * FROM todos\<close>\<close>

definition select_todos :: "store \<Rightarrow> error + todo_row list" where
  "select_todos s = (case todos s of None \<Rightarrow> Inl NoSuchTable | Some t \<Rightarrow> Inr (rows t))"

text \<open>\<open>SELECT * FROM todos WHERE listId = ?\<close>: NULL equals nothing.\<close>

definition select_todos_by_list :: "string \<Rightarrow> store \<Rightarrow> error + todo_row list" where
  "select_todos_by_list l s =
     (case todos s of
        None \<Rightarrow> Inl NoSuchTable
      | Some t \<Rightarrow>
          if \<not> has_listId t then Inl NoSuchColumn
          else Inr (filter (\<lambda>r. row_listId r = Some l) (rows t)))"

text \<open>\<open>SELECT * FROM todos WHERE id = ?\<close>\<close>

definition select_todos_by_id :: "string \<Rightarrow> store \<Rightarrow> error + todo_row list" where
  "select_todos_by_id i s =
     (case todos s of
        None \<Rightarrow> Inl NoSuchTable
      | Some t \<Rightarrow> Inr (filter (\<lambda>r. row_id r = i) (rows t)))"

text \<open>\<open>SELECT * FROM todo_lists ORDER BY name\<close>: text compares bytewise (collation BINARY).\<close>

definition select_lists_by_name :: "store \<Rightarrow> error + TodoList list" where
  "select_lists_by_name s =
     (case todo_lists s of None \<Rightarrow> Inl NoSuchTable | Some ls \<Rightarrow> Inr (sort_key list_name ls))"

text \<open>A statement that names the three version-2 columns needs all of them.\<close>

definition has_v2_columns :: "todos_table \<Rightarrow> bool" where
  "has_v2_columns t = (has_listId t \<and> has_notes t \<and> has_dueDate t)"

text \<open>
  \<open>INSERT INTO todos (id, text, done, createdAt, listId, notes, dueDate)
   VALUES (?, ?, 0, ?, ?, ?, ?) RETURNING ...\<close>: the rows returned and the new store.
\<close>

definition insert_todo_returning ::
  "string \<Rightarrow> string \<Rightarrow> string \<Rightarrow> string \<Rightarrow> string option \<Rightarrow> string option \<Rightarrow> store
     \<Rightarrow> error + (todo_row list \<times> store)" where
  "insert_todo_returning i txt c l n d s =
     (case todos s of
        None \<Rightarrow> Inl NoSuchTable
      | Some t \<Rightarrow>
          if \<not> has_v2_columns t then Inl NoSuchColumn
          else if i \<in> set (map row_id (rows t)) then Inl ConstraintPrimaryKey
          else
            (let r = \<lparr>row_id = i, row_text = txt, row_done = 0, row_createdAt = c,
                      row_listId = Some l, row_notes = n, row_dueDate = d\<rparr>
             in Inr ([r], s\<lparr>todos := Some (t\<lparr>rows := rows t @ [r]\<rparr>)\<rparr>)))"

text \<open>\<open>UPDATE todos SET done = ? WHERE id = ? RETURNING ...\<close>\<close>

definition update_done_returning ::
  "int \<Rightarrow> string \<Rightarrow> store \<Rightarrow> error + (todo_row list \<times> store)" where
  "update_done_returning d i s =
     (case todos s of
        None \<Rightarrow> Inl NoSuchTable
      | Some t \<Rightarrow>
          if \<not> has_v2_columns t then Inl NoSuchColumn
          else
            (let rs = map (\<lambda>r. if row_id r = i then r\<lparr>row_done := d\<rparr> else r) (rows t)
             in Inr (filter (\<lambda>r. row_id r = i) rs, s\<lparr>todos := Some (t\<lparr>rows := rs\<rparr>)\<rparr>)))"

text \<open>\<open>UPDATE todos SET text = ?, notes = ?, dueDate = ?, listId = ? WHERE id = ? RETURNING ...\<close>\<close>

definition update_fields_returning ::
  "string \<Rightarrow> string option \<Rightarrow> string option \<Rightarrow> string option \<Rightarrow> string \<Rightarrow> store
     \<Rightarrow> error + (todo_row list \<times> store)" where
  "update_fields_returning txt n d l i s =
     (case todos s of
        None \<Rightarrow> Inl NoSuchTable
      | Some t \<Rightarrow>
          if \<not> has_v2_columns t then Inl NoSuchColumn
          else
            (let rs = map (\<lambda>r. if row_id r = i
                               then r\<lparr>row_text := txt, row_notes := n, row_dueDate := d,
                                      row_listId := l\<rparr>
                               else r) (rows t)
             in Inr (filter (\<lambda>r. row_id r = i) rs, s\<lparr>todos := Some (t\<lparr>rows := rs\<rparr>)\<rparr>)))"

text \<open>\<open>INSERT INTO todo_lists (id, name) VALUES (?, ?) RETURNING id, name\<close>\<close>

definition insert_list_returning ::
  "string \<Rightarrow> string \<Rightarrow> store \<Rightarrow> error + (TodoList list \<times> store)" where
  "insert_list_returning i n s =
     (case insert_list i n s of
        Inl e \<Rightarrow> Inl e
      | Inr s' \<Rightarrow> Inr ([\<lparr>list_id = i, list_name = n\<rparr>], s'))"

definition getDBVersion :: "store \<Rightarrow> int option outcome" where
  "getDBVersion s = Ok (get_user_version s) s"

definition getAllTodos :: "js_date \<Rightarrow> store \<Rightarrow> TodoItem list outcome" where
  "getAllTodos api s =
     (case select_todos s of
        Inl e \<Rightarrow> Fault e s
      | Inr result \<Rightarrow> Ok (map (to_item api) result) s)"

text \<open>\<open>if (listId)\<close> is JavaScript truthiness: undefined and the empty string take the else branch.\<close>

definition getTodosByList :: "js_date \<Rightarrow> string option \<Rightarrow> store \<Rightarrow> TodoItem list outcome" where
  "getTodosByList api listId s =
     (case (case listId of
              None \<Rightarrow> select_todos s
            | Some l \<Rightarrow> if truthy (Some l) then select_todos_by_list l s else select_todos s) of
        Inl e \<Rightarrow> Fault e s
      | Inr result \<Rightarrow> Ok (map (to_item api) result) s)"

definition getAllLists :: "store \<Rightarrow> TodoList list outcome" where
  "getAllLists s =
     (case select_lists_by_name s of Inl e \<Rightarrow> Fault e s | Inr result \<Rightarrow> Ok result s)"

text \<open>
  \<open>createList\<close>: \<open>id\<close> is what \<open>crypto.randomUUID()\<close> returns. The statement returns the row it
  inserted, so \<open>result!\<close> is never null; the model keeps the \<open>option\<close> of \<open>getFirstAsync\<close>.
\<close>

definition createList :: "string \<Rightarrow> string \<Rightarrow> store \<Rightarrow> TodoList option outcome" where
  "createList id' name' s =
     (case insert_list_returning id' name' s of
        Inl e \<Rightarrow> Fault e s
      | Inr (rs, s') \<Rightarrow> Ok (getFirst rs) s')"

text \<open>
  \<open>createTodo\<close>: \<open>id'\<close> is what \<open>crypto.randomUUID()\<close> returns and \<open>now\<close> the time value of
  \<open>new Date()\<close>. \<open>listId\<close> defaults to \<open>'default-list'\<close> when undefined; a \<open>Date\<close> object is
  always truthy, so \<open>dueDate ? dueDate.toISOString() : null\<close> tests presence only.
\<close>

definition createTodo ::
  "js_date \<Rightarrow> string \<Rightarrow> int \<Rightarrow> string \<Rightarrow> string option \<Rightarrow> string option \<Rightarrow> date option \<Rightarrow> store
     \<Rightarrow> TodoItem option outcome" where
  "createTodo api id' now txt listId notes dueDate s =
     (let l = (case listId of None \<Rightarrow> ''default-list'' | Some x \<Rightarrow> x);
          createdAt = iso_of api now
      in case (case dueDate of None \<Rightarrow> Inr None
               | Some d \<Rightarrow> (case toISOString api d of Inl e \<Rightarrow> Inl e | Inr x \<Rightarrow> Inr (Some x))) of
           Inl e \<Rightarrow> Fault e s
         | Inr dueDateString \<Rightarrow>
             (case insert_todo_returning id' txt createdAt l (or_null notes) dueDateString s of
                Inl e \<Rightarrow> Fault e s
              | Inr (rs, s') \<Rightarrow> Ok (map_option (to_item api) (getFirst rs)) s'))"

definition updateTodoStatus ::
  "js_date \<Rightarrow> string \<Rightarrow> bool \<Rightarrow> store \<Rightarrow> TodoItem option outcome" where
  "updateTodoStatus api id' done s =
     (case update_done_returning (if done then 1 else 0) id' s of
        Inl e \<Rightarrow> Fault e s
      | Inr (rs, s') \<Rightarrow>
          (case getFirst rs of
             None \<Rightarrow> Ok None s'
           | Some result \<Rightarrow> Ok (Some (to_item api result)) s'))"

text \<open>The argument \<open>updates\<close> of \<open>updateTodo\<close>: every field may be missing.\<close>

record updates =
  upd_text :: "string option"
  upd_notes :: "string option"
  upd_dueDate :: "date option"
  upd_listId :: "string option"

text \<open>
  \<open>updateTodo\<close>. A row read from the table holds \<open>dueDate\<close> as text or null, so
  \<open>typeof todo.dueDate === 'string'\<close> holds whenever \<open>todo.dueDate\<close> is truthy, and the stored
  text is written back.
\<close>

definition updateTodo ::
  "js_date \<Rightarrow> string \<Rightarrow> updates \<Rightarrow> store \<Rightarrow> TodoItem option outcome" where
  "updateTodo api id' u s =
     (case select_todos_by_id id' s of
        Inl e \<Rightarrow> Fault e s
      | Inr found \<Rightarrow>
          (case getFirst found of
             None \<Rightarrow> Ok None s
           | Some todo \<Rightarrow>
               (let txt = (case upd_text u of None \<Rightarrow> row_text todo | Some x \<Rightarrow> x);
                    notes = (case upd_notes u of None \<Rightarrow> row_notes todo | Some x \<Rightarrow> Some x);
                    listId = (case upd_listId u of None \<Rightarrow> row_listId todo | Some x \<Rightarrow> Some x)
                in case (case upd_dueDate u of
                           None \<Rightarrow> Inr (if truthy (row_dueDate todo) then row_dueDate todo else None)
                         | Some d \<Rightarrow>
                             (case toISOString api d of Inl e \<Rightarrow> Inl e | Inr x \<Rightarrow> Inr (Some x))) of
                     Inl e \<Rightarrow> Fault e s
                   | Inr dueDate \<Rightarrow>
                       (case update_fields_returning txt (or_null notes) dueDate listId id' s of
                          Inl e \<Rightarrow> Fault e s
                        | Inr (rs, s') \<Rightarrow>
                            (case getFirst rs of
                               None \<Rightarrow> Ok None s'
                             | Some result \<Rightarrow> Ok (Some (to_item api result)) s')))))"

section \<open>Properties of the store\<close>

definition todo_rows :: "store \<Rightarrow> todo_row list" where
  "todo_rows s = (case todos s of None \<Rightarrow> [] | Some t \<Rightarrow> rows t)"

text \<open>
  What \<open>crypto.randomUUID()\<close> promises of the three ids of \<open>initializeDB\<close>: they differ from
  each other and from every id in the table.
\<close>

definition fresh_ids :: "string \<times> string \<times> string \<Rightarrow> store \<Rightarrow> bool" where
  "fresh_ids ids s =
     (case ids of (a, b, c) \<Rightarrow>
        distinct [a, b, c] \<and> list_all (\<lambda>i. i \<notin> set (map row_id (todo_rows s))) [a, b, c])"

text \<open>The table \<open>todos\<close> exists with the three version-2 columns, as migration leaves it.\<close>

definition todos_ready :: "store \<Rightarrow> bool" where
  "todos_ready s = (case todos s of None \<Rightarrow> False | Some t \<Rightarrow> has_v2_columns t)"

text \<open>The primary key of \<open>todos\<close>: no two rows share an id.\<close>

definition pk_ok :: "store \<Rightarrow> bool" where
  "pk_ok s = distinct (map row_id (todo_rows s))"

text \<open>Every stored \<open>notes\<close> is NULL or a non-empty string; likewise \<open>dueDate\<close>.\<close>

definition notes_ok :: "store \<Rightarrow> bool" where
  "notes_ok s = list_all (\<lambda>r. row_notes r \<noteq> Some []) (todo_rows s)"

definition dueDate_ok :: "store \<Rightarrow> bool" where
  "dueDate_ok s = list_all (\<lambda>r. row_dueDate r \<noteq> Some []) (todo_rows s)"

text \<open>
  A migrated, well-formed store: the table \<open>todos\<close> has its version-2 columns, ids are
  unique, and no stored \<open>notes\<close> or \<open>dueDate\<close> is the empty string. Migration establishes
  it and every operation of the data layer preserves it (shown below), so it is what the
  data layer may assume of the store it is handed.
\<close>

definition wf_store :: "store \<Rightarrow> bool" where
  "wf_store s = (todos_ready s \<and> pk_ok s \<and> notes_ok s \<and> dueDate_ok s)"


section \<open>Example stores\<close>


text \<open>A store at version 1: the version-1 table with one task, no list table.\<close>

definition old_task :: todo_row where
  "old_task = \<lparr>row_id = ''t0'', row_text = ''water plants'', row_done = 0,
               row_createdAt = ''2023-06-01T08:00:00.000Z'',
               row_listId = None, row_notes = None, row_dueDate = None\<rparr>"

definition store_at_1 :: store where
  "store_at_1 =
     \<lparr>user_version = 1,
      todos = Some \<lparr>has_listId = False, has_notes = False, has_dueDate = False,
                    rows = [old_task]\<rparr>,
      todo_lists = None\<rparr>"

text \<open>A \<open>Date\<close> interface that knows two instants; every other string is an Invalid Date.\<close>

definition demo_dates :: js_date where
  "demo_dates =
     \<lparr>iso_of = (\<lambda>t. if t = 1714557600000 then ''2024-05-01T10:00:00.000Z''
                      else ''1970-01-01T00:00:00.000Z''),
      date_of = (\<lambda>x. if x = ''2024-05-01T10:00:00.000Z'' then Instant 1714557600000
                       else if x = ''1970-01-01T00:00:00.000Z'' then Instant 0
                       else InvalidDate)\<rparr>"

text \<open>A store already at version 2, holding two tasks and four lists.\<close>

definition task1 :: todo_row where
  "task1 = \<lparr>row_id = ''t1'', row_text = ''buy milk'', row_done = 1,
            row_createdAt = ''1970-01-01T00:00:00.000Z'',
            row_listId = Some ''default-list'', row_notes = Some ''2 litres'',
            row_dueDate = Some ''2024-05-01T10:00:00.000Z''\<rparr>"

definition task2 :: todo_row where
  "task2 = \<lparr>row_id = ''t2'', row_text = ''write report'', row_done = 0,
            row_createdAt = ''2024-05-01T10:00:00.000Z'',
            row_listId = Some ''l1'', row_notes = None, row_dueDate = None\<rparr>"

definition table_at_2 :: todos_table where
  "table_at_2 = \<lparr>has_listId = True, has_notes = True, has_dueDate = True, rows = [task1, task2]\<rparr>"

definition lists_at_2 :: "TodoList list" where
  "lists_at_2 =
     [\<lparr>list_id = ''default-list'', list_name = ''Todas as Tarefas''\<rparr>,
      \<lparr>list_id = ''l1'', list_name = ''Work''\<rparr>,
      \<lparr>list_id = ''l2'', list_name = ''Apple''\<rparr>,
      \<lparr>list_id = ''l3'', list_name = ''Z''\<rparr>]"

definition store_at_2 :: store where
  "store_at_2 = \<lparr>user_version = 2, todos = Some table_at_2, todo_lists = Some lists_at_2\<rparr>"

section \<open>Migration: the steps\<close>

lemmas stmt_defs = create_todos_def insert_todo4_def create_todo_lists_def add_listId_def
  add_notes_def add_dueDate_def count_default_list_def insert_list_def backfill_listId_def
  set_user_version_def get_user_version_def

lemmas mig_defs = migrateDB_def run_initial_def run_upgrade_def initializeDB_def
  upgradeToVersion2_def currentDbVersion_def DATABASE_VERSION_def try_execAsync_def

lemma currentDbVersion_eq: "currentDbVersion s = user_version s"
  by (simp add: currentDbVersion_def get_user_version_def)

lemma migrateDB_at_target:
  "currentDbVersion s = DATABASE_VERSION \<Longrightarrow> migrateDB ids s = Ok () s"
  by (simp add: migrateDB_def)

lemma initializeDB_fresh:
  assumes "fresh_ids ids s"
  shows "\<exists>s'. initializeDB ids s = Ok () s' \<and> todos s' \<noteq> None \<and> user_version s' = user_version s"
proof -
  obtain a b c where ids: "ids = (a, b, c)" by (cases ids) auto
  show ?thesis
  proof (cases "todos s")
    case None
    with assms ids show ?thesis
      by (auto simp: initializeDB_def fresh_ids_def todo_rows_def create_todos_def insert_todo4_def)
  next
    case (Some t)
    with assms ids show ?thesis
      by (auto simp: initializeDB_def fresh_ids_def todo_rows_def create_todos_def insert_todo4_def)
  qed
qed

lemma upgradeToVersion2_ok:
  assumes "todos s \<noteq> None"
  shows "\<exists>s'. upgradeToVersion2 s = Ok () s' \<and> user_version s' = user_version s"
proof -
  obtain t where t: "todos s = Some t" using assms by auto
  show ?thesis
    using t
    by (cases "todo_lists s")
       (auto simp: upgradeToVersion2_def try_execAsync_def stmt_defs Let_def filter_empty_conv)
qed

text \<open>
  A store at version 1 without the table \<open>todos\<close>: the three ALTER faults are caught, the
  final UPDATE faults, and the store the fault leaves gives the same fault again.
\<close>

lemma upgradeToVersion2_no_todos:
  assumes "todos s = None"
  shows "\<exists>s1. upgradeToVersion2 s = Fault NoSuchTable s1 \<and> todos s1 = None \<and>
           user_version s1 = user_version s \<and> upgradeToVersion2 s1 = Fault NoSuchTable s1"
  using assms
  by (cases "todo_lists s")
     (auto simp: upgradeToVersion2_def try_execAsync_def stmt_defs Let_def filter_empty_conv)

section \<open>Migration of a store at version 0\<close>




section \<open>Migration is idempotent\<close>

text \<open>
  C2. For every starting store and freshly generated ids, running \<open>migrateDB\<close> a second
  time on the store the first run left gives the outcome of the first run again, with the
  same store (schema, rows and persisted version): after a run that resolved, the second
  run changes nothing; after a run that faulted, the second run faults the same way on the
  same store. In particular \<open>migrateDB\<close> on a store already at version 2 resolves and
  leaves the store as it is.
\<close>

theorem migrateDB_idempotent:
  assumes "fresh_ids ids s"
  shows "migrateDB ids' (store_of (migrateDB ids s)) = migrateDB ids s \<and>
         (currentDbVersion s = DATABASE_VERSION \<longrightarrow> migrateDB ids s = Ok () s)"
proof -
  let ?v = "currentDbVersion s"
  have noop: "?v = DATABASE_VERSION \<longrightarrow> migrateDB ids s = Ok () s"
    by (simp add: migrateDB_at_target)
  have twice: "migrateDB ids' (store_of (migrateDB ids s)) = migrateDB ids s"
  proof -
    consider (target) "?v = 2" | (zero) "?v = 0" | (one) "?v = 1" "todos s \<noteq> None"
      | (one_bad) "?v = 1" "todos s = None" | (other) "?v \<noteq> 0" "?v \<noteq> 1" "?v \<noteq> 2"
      by blast
    then show ?thesis
    proof cases
      case target
      then show ?thesis by (simp add: migrateDB_def DATABASE_VERSION_def)
    next
      case zero
      obtain s1 where s1: "initializeDB ids s = Ok () s1" "todos s1 \<noteq> None"
        using initializeDB_fresh [OF assms] by blast
      obtain s2 where s2: "upgradeToVersion2 s1 = Ok () s2"
        using upgradeToVersion2_ok [OF s1(2)] by blast
      have "migrateDB ids s = Ok () (s2\<lparr>user_version := DATABASE_VERSION\<rparr>)"
        using zero s1 s2
        by (simp add: migrateDB_def run_initial_def run_upgrade_def DATABASE_VERSION_def
              set_user_version_def)
      then show ?thesis
        by (simp add: migrateDB_at_target currentDbVersion_eq)
    next
      case one
      obtain s2 where s2: "upgradeToVersion2 s = Ok () s2"
        using upgradeToVersion2_ok [OF one(2)] by blast
      have "migrateDB ids s = Ok () (s2\<lparr>user_version := DATABASE_VERSION\<rparr>)"
        using one s2
        by (simp add: migrateDB_def run_initial_def run_upgrade_def DATABASE_VERSION_def
              set_user_version_def)
      then show ?thesis
        by (simp add: migrateDB_at_target currentDbVersion_eq)
    next
      case one_bad
      obtain s1 where s1: "upgradeToVersion2 s = Fault NoSuchTable s1"
          "user_version s1 = user_version s" "upgradeToVersion2 s1 = Fault NoSuchTable s1"
        using upgradeToVersion2_no_todos [OF one_bad(2)] by blast
      have first: "migrateDB ids s = Fault NoSuchTable s1"
        using one_bad s1
        by (simp add: migrateDB_def run_initial_def run_upgrade_def DATABASE_VERSION_def)
      have "currentDbVersion s1 = 1"
        using one_bad s1 by (simp add: currentDbVersion_eq)
      then have "migrateDB ids' s1 = Fault NoSuchTable s1"
        using s1
        by (simp add: migrateDB_def run_initial_def run_upgrade_def DATABASE_VERSION_def)
      with first show ?thesis by simp
    next
      case other
      then have "migrateDB ids s = Ok () (s\<lparr>user_version := DATABASE_VERSION\<rparr>)"
        by (simp add: migrateDB_def run_initial_def run_upgrade_def DATABASE_VERSION_def
              set_user_version_def)
      then show ?thesis
        by (simp add: migrateDB_at_target currentDbVersion_eq)
    qed
  qed
  from twice noop show ?thesis by blast
qed

theorem migrateDB_idempotent_witness:
  "fresh_ids (''id-1'', ''id-2'', ''id-3'') fresh_store \<and>
   migrateDB (''id-4'', ''id-5'', ''id-6'') (store_of (migrateDB (''id-1'', ''id-2'', ''id-3'') fresh_store))
     = migrateDB (''id-1'', ''id-2'', ''id-3'') fresh_store \<and>
   fresh_ids (''id-1'', ''id-2'', ''id-3'') store_at_2 \<and>
   currentDbVersion store_at_2 = DATABASE_VERSION \<and>
   migrateDB (''id-1'', ''id-2'', ''id-3'') store_at_2 = Ok () store_at_2"
proof -
  have h1: "fresh_ids (''id-1'', ''id-2'', ''id-3'') fresh_store"
    by (simp add: fresh_ids_def todo_rows_def fresh_store_def)
  have h2: "fresh_ids (''id-1'', ''id-2'', ''id-3'') store_at_2"
    by (simp add: fresh_ids_def todo_rows_def store_at_2_def table_at_2_def task1_def task2_def)
  have h3: "currentDbVersion store_at_2 = DATABASE_VERSION"
    by (simp add: currentDbVersion_eq store_at_2_def DATABASE_VERSION_def)
  from h1 h2 h3
    migrateDB_idempotent [OF h1, of "(''id-4'', ''id-5'', ''id-6'')"]
    migrateDB_idempotent [OF h2, of "(''id-1'', ''id-2'', ''id-3'')"]
  show ?thesis by blast
qed

section \<open>Migration: what every step preserves\<close>

lemma execAsync1_preserves:
  assumes "\<And>x'. st s = Inr x' \<Longrightarrow> P x'" and "P s"
  shows "P (store_of (execAsync [st] s))"
  using assms by (cases "st s") auto

lemma try_execAsync1_preserves:
  assumes "\<And>x'. st s = Inr x' \<Longrightarrow> P x'" and "P s"
  shows "P (try_execAsync [st] s)"
  unfolding try_execAsync_def using assms by (rule execAsync1_preserves)

lemma upgradeToVersion2_unfold:
  assumes "execAsync [create_todo_lists] s = Ok () s1"
    and "s4 = try_execAsync [add_dueDate] (try_execAsync [add_notes] (try_execAsync [add_listId] s1))"
    and "m = (\<lambda>d. if d = None \<or> d = Some (0::nat)
               then execAsync [insert_list ''default-list'' ''Todas as Tarefas''] s4
               else Ok () s4)"
  shows "upgradeToVersion2 s =
      (case count_default_list s4 of
         Inl e \<Rightarrow> Fault e s4
       | Inr d \<Rightarrow> (case m d of Fault e s5 \<Rightarrow> Fault e s5
                    | Ok _ s5 \<Rightarrow> execAsync [backfill_listId] s5))"
  unfolding upgradeToVersion2_def assms by (simp add: Let_def)

lemma upgradeToVersion2_preserves:
  assumes c: "\<And>x x'. P x \<Longrightarrow> create_todo_lists x = Inr x' \<Longrightarrow> P x'"
    and a1: "\<And>x x'. P x \<Longrightarrow> add_listId x = Inr x' \<Longrightarrow> P x'"
    and a2: "\<And>x x'. P x \<Longrightarrow> add_notes x = Inr x' \<Longrightarrow> P x'"
    and a3: "\<And>x x'. P x \<Longrightarrow> add_dueDate x = Inr x' \<Longrightarrow> P x'"
    and i: "\<And>x x'. P x \<Longrightarrow> insert_list ''default-list'' ''Todas as Tarefas'' x = Inr x' \<Longrightarrow> P x'"
    and b: "\<And>x x'. P x \<Longrightarrow> backfill_listId x = Inr x' \<Longrightarrow> P x'"
    and s: "P s"
  shows "P (store_of (upgradeToVersion2 s))"
proof -
  obtain s1 where ex: "execAsync [create_todo_lists] s = Ok () s1"
    by (cases "todo_lists s") (auto simp: create_todo_lists_def)
  have "P (store_of (execAsync [create_todo_lists] s))"
    using c [OF s] s by (rule execAsync1_preserves)
  then have p1: "P s1" by (simp only: ex store_of.simps)
  define s2 where "s2 = try_execAsync [add_listId] s1"
  define s3 where "s3 = try_execAsync [add_notes] s2"
  define s4 where "s4 = try_execAsync [add_dueDate] s3"
  have p2: "P s2" unfolding s2_def using a1 [OF p1] p1 by (rule try_execAsync1_preserves)
  have p3: "P s3" unfolding s3_def using a2 [OF p2] p2 by (rule try_execAsync1_preserves)
  have p4: "P s4" unfolding s4_def using a3 [OF p3] p3 by (rule try_execAsync1_preserves)
  define m where
    "m = (\<lambda>d. if d = None \<or> d = Some (0::nat)
               then execAsync [insert_list ''default-list'' ''Todas as Tarefas''] s4
               else Ok () s4)"
  have pi: "P (store_of (execAsync [insert_list ''default-list'' ''Todas as Tarefas''] s4))"
    using i [OF p4] p4 by (rule execAsync1_preserves)
  have pm: "P (store_of (m d))" for d
    using pi p4 by (cases "d = None \<or> d = Some 0") (simp_all only: m_def if_True if_False store_of.simps)
  have unfold: "upgradeToVersion2 s =
      (case count_default_list s4 of
         Inl e \<Rightarrow> Fault e s4
       | Inr d \<Rightarrow> (case m d of Fault e s5 \<Rightarrow> Fault e s5
                    | Ok _ s5 \<Rightarrow> execAsync [backfill_listId] s5))"
    by (rule upgradeToVersion2_unfold [OF ex]) (simp_all only: s4_def s3_def s2_def m_def)
  show ?thesis
  proof (cases "count_default_list s4")
    case (Inl e)
    with unfold p4 show ?thesis by simp
  next
    case (Inr d)
    show ?thesis
    proof (cases "m d")
      case (Ok u s5)
      with pm [of d] have p5: "P s5" by simp
      have "P (store_of (execAsync [backfill_listId] s5))"
        using b [OF p5] p5 by (rule execAsync1_preserves)
      with unfold Inr Ok show ?thesis by (simp del: execAsync.simps)
    next
      case (Fault e s5)
      with pm [of d] have "P s5" by simp
      with unfold Inr Fault show ?thesis by simp
    qed
  qed
qed

lemma execAsync_cons_preserves:
  assumes "\<And>x'. st s = Inr x' \<Longrightarrow> P (store_of (execAsync sts x'))" and "P s"
  shows "P (store_of (execAsync (st # sts) s))"
  using assms by (cases "st s") auto

lemma initializeDB_preserves:
  assumes ins: "\<And>i txt d c x x'. P x \<Longrightarrow> insert_todo4 i txt d c x = Inr x' \<Longrightarrow> P x'"
    and cr: "\<And>x x'. P x \<Longrightarrow> create_todos x = Inr x' \<Longrightarrow> P x'"
    and s: "P s"
  shows "P (store_of (initializeDB ids s))"
proof -
  obtain a b c where ids: "ids = (a, b, c)" by (cases ids) auto
  have r1: "P (store_of (execAsync [insert_todo4 i t d k] x))" if "P x" for i t d k x
    using ins [OF that] that by (rule execAsync1_preserves)
  have r2: "P (store_of (execAsync [insert_todo4 i t d k, insert_todo4 i' t' d' k'] x))"
    if "P x" for i t d k i' t' d' k' x
    using r1 [OF ins [OF that]] that by (rule execAsync_cons_preserves)
  have r3: "P (store_of (execAsync [insert_todo4 i t d k, insert_todo4 i' t' d' k',
      insert_todo4 i'' t'' d'' k''] x))"
    if "P x" for i t d k i' t' d' k' i'' t'' d'' k'' x
    using r2 [OF ins [OF that]] that by (rule execAsync_cons_preserves)
  show ?thesis
    unfolding ids initializeDB_def prod.case
    using r3 [OF cr [OF s]] s by (rule execAsync_cons_preserves)
qed

lemma ids_map:
  "(\<And>x. row_id (f x) = row_id x) \<Longrightarrow> map row_id (map f xs) = map row_id xs"
  by (induction xs) simp_all

lemma ids_map_comp:
  "(\<And>x. row_id (f x) = row_id x) \<Longrightarrow> map (row_id \<circ> f) xs = map row_id xs"
  by (induction xs) simp_all

lemma stmt_version:
  "create_todos s = Inr s' \<Longrightarrow> user_version s' = user_version s"
  "insert_todo4 i txt d c s = Inr s' \<Longrightarrow> user_version s' = user_version s"
  "create_todo_lists s = Inr s' \<Longrightarrow> user_version s' = user_version s"
  "add_listId s = Inr s' \<Longrightarrow> user_version s' = user_version s"
  "add_notes s = Inr s' \<Longrightarrow> user_version s' = user_version s"
  "add_dueDate s = Inr s' \<Longrightarrow> user_version s' = user_version s"
  "insert_list i n s = Inr s' \<Longrightarrow> user_version s' = user_version s"
  "backfill_listId s = Inr s' \<Longrightarrow> user_version s' = user_version s"
  by (auto simp: stmt_defs split: option.splits if_splits)

lemma initializeDB_version:
  "user_version (store_of (initializeDB ids s)) = user_version s"
  by (rule initializeDB_preserves [where P = "\<lambda>x. user_version x = user_version s"])
     (simp_all add: stmt_version)

lemma upgradeToVersion2_version:
  "user_version (store_of (upgradeToVersion2 s)) = user_version s"
  by (rule upgradeToVersion2_preserves [where P = "\<lambda>x. user_version x = user_version s"])
     (simp_all add: stmt_version)

lemma run_initial_version:
  "user_version (store_of (run_initial ids cur s)) = user_version s"
  using initializeDB_version [of ids s]
  by (auto simp: run_initial_def split: outcome.splits)

lemma run_upgrade_version:
  "user_version (store_of (run_upgrade cur s)) = user_version s"
  using upgradeToVersion2_version [of s]
  by (auto simp: run_upgrade_def split: outcome.splits)

lemma run_initial_cur:
  "run_initial ids cur s = Ok cur1 s1 \<Longrightarrow> cur1 = cur \<and> cur \<noteq> 0 \<or> cur = 0 \<and> cur1 = 1"
  by (auto simp: run_initial_def split: outcome.splits if_splits)

lemma run_upgrade_cur:
  "run_upgrade cur s = Ok cur1 s1 \<Longrightarrow> cur1 = cur \<and> cur \<noteq> 1 \<or> cur = 1 \<and> cur1 = 2"
  by (auto simp: run_upgrade_def split: outcome.splits if_splits)

lemma migrateDB_points_last:
  "snd (last (migrateDB_points ids s)) = user_version (store_of (migrateDB ids s))"
proof (cases "currentDbVersion s = DATABASE_VERSION")
  case True
  then show ?thesis by (simp add: migrateDB_points_def migrateDB_def)
next
  case False
  show ?thesis
  proof (cases "run_initial ids (currentDbVersion s) s")
    case (Fault e s1)
    with False run_initial_version [of ids "currentDbVersion s" s] show ?thesis
      by (simp add: migrateDB_points_def migrateDB_def)
  next
    case (Ok cur1 s1)
    note o1 = this
    show ?thesis
    proof (cases "run_upgrade cur1 s1")
      case (Fault e s2)
      with False o1 run_upgrade_version [of cur1 s1] show ?thesis
        by (simp add: migrateDB_points_def migrateDB_def)
    next
      case (Ok cur2 s2)
      with False o1 show ?thesis
        by (simp add: migrateDB_points_def migrateDB_def)
    qed
  qed
qed

section \<open>Migration: the order of the steps and the version marker\<close>

text \<open>
  C3, as stated, fails: the persisted marker does not pass through 1. On a fresh store the
  persisted \<open>user_version\<close> at the four program points is 0, 0, 0, 2: both steps run
  while the marker still reads 0, and the closing \<open>PRAGMA\<close> writes 2 directly.
\<close>

theorem migrateDB_marker_skips_1:
  "map snd (migrateDB_points (''id-1'', ''id-2'', ''id-3'') fresh_store) = [0, 0, 0, 2] \<and>
   \<not> stepwise (map snd (migrateDB_points (''id-1'', ''id-2'', ''id-3'') fresh_store))"
  by (simp add: migrateDB_points_def mig_defs stmt_defs fresh_store_def)

text \<open>
  A version other than 0, 1 and 2 is outside the steps: \<open>migrateDB\<close> runs neither block
  and its closing \<open>PRAGMA\<close> writes the marker 2 over it, whatever it was.
\<close>

lemma migrateDB_other_version:
  assumes "currentDbVersion s \<noteq> 0" and "currentDbVersion s \<noteq> 1" and "currentDbVersion s \<noteq> 2"
  shows "migrateDB ids s = Ok () (s\<lparr>user_version := 2\<rparr>)"
  using assms
  by (simp add: migrateDB_def run_initial_def run_upgrade_def DATABASE_VERSION_def
      set_user_version_def)

lemma migrateDB_from_version_3:
  "migrateDB ids (fresh_store\<lparr>user_version := 3\<rparr>) = Ok () (fresh_store\<lparr>user_version := 2\<rparr>)"
  by (simp add: migrateDB_other_version currentDbVersion_eq fresh_store_def)

text \<open>
  The counter and the marker at the program points, for a store at version 0, 1 or 2.
\<close>

lemma migrateDB_points_order:
  assumes "0 \<le> currentDbVersion s" and "currentDbVersion s \<le> DATABASE_VERSION"
  shows "stepwise (map fst (migrateDB_points ids s)) \<and>
         sorted (map snd (migrateDB_points ids s)) \<and>
         set (map snd (butlast (migrateDB_points ids s))) \<subseteq> {user_version s} \<and>
         snd (last (migrateDB_points ids s)) \<in> {user_version s, DATABASE_VERSION} \<and>
         (\<forall>s'. migrateDB ids s = Ok () s' \<longrightarrow>
            map fst (migrateDB_points ids s)
              = (if currentDbVersion s = DATABASE_VERSION then [DATABASE_VERSION]
                 else [currentDbVersion s, 1, 2, 2]) \<and>
            user_version s' = DATABASE_VERSION)"
proof (cases "currentDbVersion s = DATABASE_VERSION")
  case True
  then show ?thesis
    by (simp add: migrateDB_points_def migrateDB_def currentDbVersion_eq)
next
  case False
  with assms have v: "user_version s = 0 \<or> user_version s = 1"
    by (auto simp: currentDbVersion_eq DATABASE_VERSION_def)
  show ?thesis
  proof (cases "run_initial ids (currentDbVersion s) s")
    case (Fault e s1)
    with False show ?thesis
      by (simp add: migrateDB_points_def migrateDB_def)
  next
    case (Ok cur1 s1)
    note o1 = this
    have c1: "cur1 = 1" using run_initial_cur [OF o1] v by (auto simp: currentDbVersion_eq)
    have v1: "user_version s1 = user_version s"
      using run_initial_version [of ids "currentDbVersion s" s] o1 by simp
    show ?thesis
    proof (cases "run_upgrade cur1 s1")
      case (Fault e s2)
      with False o1 c1 v1 v show ?thesis
        by (auto simp: migrateDB_points_def migrateDB_def currentDbVersion_eq)
    next
      case (Ok cur2 s2)
      have c2: "cur2 = 2" using run_upgrade_cur [OF Ok] c1 by auto
      have v2: "user_version s2 = user_version s"
        using run_upgrade_version [of cur1 s1] Ok v1 by simp
      from False o1 Ok c1 c2 v1 v2 v show ?thesis
        by (auto simp: migrateDB_points_def migrateDB_def currentDbVersion_eq
            set_user_version_def DATABASE_VERSION_def)
    qed
  qed
qed

text \<open>Which steps run: both at version 0, the second alone at version 1.\<close>

lemma migrateDB_at_0:
  assumes "currentDbVersion s = 0"
  shows "migrateDB ids s =
     (case initializeDB ids s of
        Fault e s1 \<Rightarrow> Fault e s1
      | Ok _ s1 \<Rightarrow>
          (case upgradeToVersion2 s1 of
             Fault e s2 \<Rightarrow> Fault e s2
           | Ok _ s2 \<Rightarrow> Ok () (s2\<lparr>user_version := DATABASE_VERSION\<rparr>)))"
  using assms
  by (simp add: migrateDB_def run_initial_def run_upgrade_def DATABASE_VERSION_def
      set_user_version_def split: outcome.splits)

lemma migrateDB_at_1:
  assumes "currentDbVersion s = 1"
  shows "migrateDB ids s =
     (case upgradeToVersion2 s of
        Fault e s2 \<Rightarrow> Fault e s2
      | Ok _ s2 \<Rightarrow> Ok () (s2\<lparr>user_version := DATABASE_VERSION\<rparr>))"
  using assms
  by (simp add: migrateDB_def run_initial_def run_upgrade_def DATABASE_VERSION_def
      set_user_version_def split: outcome.splits)

text \<open>
  What the steps leave in the table: every statement of \<open>upgradeToVersion2\<close> keeps the ids
  of the task rows, and \<open>initializeDB\<close> appends its three.
\<close>

lemma stmt_ids:
  "create_todo_lists x = Inr x' \<Longrightarrow> map row_id (todo_rows x') = map row_id (todo_rows x)"
  "add_listId x = Inr x' \<Longrightarrow> map row_id (todo_rows x') = map row_id (todo_rows x)"
  "add_notes x = Inr x' \<Longrightarrow> map row_id (todo_rows x') = map row_id (todo_rows x)"
  "add_dueDate x = Inr x' \<Longrightarrow> map row_id (todo_rows x') = map row_id (todo_rows x)"
  "insert_list j n x = Inr x' \<Longrightarrow> map row_id (todo_rows x') = map row_id (todo_rows x)"
  "backfill_listId x = Inr x' \<Longrightarrow> map row_id (todo_rows x') = map row_id (todo_rows x)"
  by (auto simp: create_todo_lists_def add_listId_def add_notes_def add_dueDate_def
      insert_list_def backfill_listId_def todo_rows_def ids_map_comp
      split: option.splits if_splits)

lemma upgradeToVersion2_ids:
  "map row_id (todo_rows (store_of (upgradeToVersion2 s))) = map row_id (todo_rows s)"
  by (rule upgradeToVersion2_preserves
        [where P = "\<lambda>x. map row_id (todo_rows x) = map row_id (todo_rows s)"])
     (simp_all add: stmt_ids)

lemma initializeDB_ids:
  assumes "initializeDB (a, b, c) s = Ok () s1"
  shows "map row_id (todo_rows s1) = map row_id (todo_rows s) @ [a, b, c]"
  using assms
  by (cases "todos s")
     (auto simp: initializeDB_def create_todos_def insert_todo4_def todo_rows_def
        split: if_splits)

lemma migrateDB_at_0_ids:
  assumes v: "currentDbVersion s = 0" and ok: "migrateDB ids s = Ok () s'"
  shows "map row_id (todo_rows s') = map row_id (todo_rows s) @ (case ids of (a, b, c) \<Rightarrow> [a, b, c])"
proof -
  obtain a b c where ids: "ids = (a, b, c)" by (cases ids) auto
  from migrateDB_at_0 [OF v, of ids] ok
  obtain s1 s2 where i: "initializeDB ids s = Ok () s1" and u: "upgradeToVersion2 s1 = Ok () s2"
    and s': "s' = s2\<lparr>user_version := DATABASE_VERSION\<rparr>"
    by (auto split: outcome.splits)
  have "map row_id (todo_rows s') = map row_id (todo_rows s2)"
    by (simp add: s' todo_rows_def)
  also have "\<dots> = map row_id (todo_rows s1)"
    using upgradeToVersion2_ids [of s1] u by simp
  also have "\<dots> = map row_id (todo_rows s) @ [a, b, c]"
    using i unfolding ids by (rule initializeDB_ids)
  finally show ?thesis by (simp add: ids)
qed

lemma migrateDB_at_1_ids:
  assumes v: "currentDbVersion s = 1" and ok: "migrateDB ids s = Ok () s'"
  shows "map row_id (todo_rows s') = map row_id (todo_rows s)"
proof -
  from migrateDB_at_1 [OF v, of ids] ok
  obtain s2 where u: "upgradeToVersion2 s = Ok () s2"
    and s': "s' = s2\<lparr>user_version := DATABASE_VERSION\<rparr>"
    by (auto split: outcome.splits)
  have "map row_id (todo_rows s') = map row_id (todo_rows s2)"
    by (simp add: s' todo_rows_def)
  also have "\<dots> = map row_id (todo_rows s)"
    using upgradeToVersion2_ids [of s] u by simp
  finally show ?thesis .
qed

text \<open>
  C3, amended. For a store at version 0, 1 or 2, the local version counter of \<open>migrateDB\<close>
  moves forward one step at a time (never skipping, never decreasing); the persisted
  marker keeps its starting value at every point before the last, is written once,
  directly to 2, and never decreases; and when \<open>migrateDB\<close> resolves, the counter has
  gone through 0, 1, 2 from version 0, through 1, 2 from version 1, and stayed at 2 from
  version 2, and the marker is 2. Each step runs at its own version only: at version 0
  the outcome is that of \<open>initializeDB\<close>, then \<open>upgradeToVersion2\<close>, then the marker; at
  version 1 that of \<open>upgradeToVersion2\<close>, then the marker, \<open>initializeDB\<close> not running; at
  version 2 nothing runs. In the table, a run that resolves from version 0 has appended
  exactly the three seeded rows, once; a run that resolves from version 1 has added no
  row.
\<close>

theorem migrateDB_steps:
  assumes "0 \<le> currentDbVersion s" and "currentDbVersion s \<le> DATABASE_VERSION"
  shows "stepwise (map fst (migrateDB_points ids s)) \<and>
         sorted (map snd (migrateDB_points ids s)) \<and>
         set (map snd (butlast (migrateDB_points ids s))) \<subseteq> {user_version s} \<and>
         snd (last (migrateDB_points ids s)) \<in> {user_version s, DATABASE_VERSION} \<and>
         (\<forall>s'. migrateDB ids s = Ok () s' \<longrightarrow>
            map fst (migrateDB_points ids s)
              = (if currentDbVersion s = DATABASE_VERSION then [DATABASE_VERSION]
                 else [currentDbVersion s, 1, 2, 2]) \<and>
            user_version s' = DATABASE_VERSION) \<and>
         (currentDbVersion s = 0 \<longrightarrow>
            migrateDB ids s =
              (case initializeDB ids s of
                 Fault e s1 \<Rightarrow> Fault e s1
               | Ok _ s1 \<Rightarrow>
                   (case upgradeToVersion2 s1 of
                      Fault e s2 \<Rightarrow> Fault e s2
                    | Ok _ s2 \<Rightarrow> Ok () (s2\<lparr>user_version := DATABASE_VERSION\<rparr>)))) \<and>
         (currentDbVersion s = 1 \<longrightarrow>
            migrateDB ids s =
              (case upgradeToVersion2 s of
                 Fault e s2 \<Rightarrow> Fault e s2
               | Ok _ s2 \<Rightarrow> Ok () (s2\<lparr>user_version := DATABASE_VERSION\<rparr>))) \<and>
         (currentDbVersion s = 2 \<longrightarrow> migrateDB ids s = Ok () s) \<and>
         (\<forall>s'. currentDbVersion s = 0 \<and> migrateDB ids s = Ok () s' \<longrightarrow>
            map row_id (todo_rows s')
              = map row_id (todo_rows s) @ (case ids of (a, b, c) \<Rightarrow> [a, b, c])) \<and>
         (\<forall>s'. currentDbVersion s = 1 \<and> migrateDB ids s = Ok () s' \<longrightarrow>
            map row_id (todo_rows s') = map row_id (todo_rows s))"
proof -
  note order = migrateDB_points_order [OF assms, of ids]
  have at2: "migrateDB ids s = Ok () s" if "currentDbVersion s = 2"
    using that by (simp add: migrateDB_at_target DATABASE_VERSION_def)
  have seeds: "map row_id (todo_rows s')
      = map row_id (todo_rows s) @ (case ids of (a, b, c) \<Rightarrow> [a, b, c])"
    if "currentDbVersion s = 0 \<and> migrateDB ids s = Ok () s'" for s'
    using that migrateDB_at_0_ids [of s ids s'] by blast
  have keeps: "map row_id (todo_rows s') = map row_id (todo_rows s)"
    if "currentDbVersion s = 1 \<and> migrateDB ids s = Ok () s'" for s'
    using that migrateDB_at_1_ids [of s ids s'] by blast
  show ?thesis
  proof (intro conjI)
    show "stepwise (map fst (migrateDB_points ids s))"
      by (rule order [THEN conjunct1])
    show "sorted (map snd (migrateDB_points ids s))"
      by (rule order [THEN conjunct2, THEN conjunct1])
    show "set (map snd (butlast (migrateDB_points ids s))) \<subseteq> {user_version s}"
      by (rule order [THEN conjunct2, THEN conjunct2, THEN conjunct1])
    show "snd (last (migrateDB_points ids s)) \<in> {user_version s, DATABASE_VERSION}"
      by (rule order [THEN conjunct2, THEN conjunct2, THEN conjunct2, THEN conjunct1])
    show "\<forall>s'. migrateDB ids s = Ok () s' \<longrightarrow>
            map fst (migrateDB_points ids s)
              = (if currentDbVersion s = DATABASE_VERSION then [DATABASE_VERSION]
                 else [currentDbVersion s, 1, 2, 2]) \<and>
            user_version s' = DATABASE_VERSION"
      by (rule order [THEN conjunct2, THEN conjunct2, THEN conjunct2, THEN conjunct2])
    show "currentDbVersion s = 0 \<longrightarrow>
            migrateDB ids s =
              (case initializeDB ids s of
                 Fault e s1 \<Rightarrow> Fault e s1
               | Ok _ s1 \<Rightarrow>
                   (case upgradeToVersion2 s1 of
                      Fault e s2 \<Rightarrow> Fault e s2
                    | Ok _ s2 \<Rightarrow> Ok () (s2\<lparr>user_version := DATABASE_VERSION\<rparr>)))"
      by (intro impI migrateDB_at_0)
    show "currentDbVersion s = 1 \<longrightarrow>
            migrateDB ids s =
              (case upgradeToVersion2 s of
                 Fault e s2 \<Rightarrow> Fault e s2
               | Ok _ s2 \<Rightarrow> Ok () (s2\<lparr>user_version := DATABASE_VERSION\<rparr>))"
      by (intro impI migrateDB_at_1)
    show "currentDbVersion s = 2 \<longrightarrow> migrateDB ids s = Ok () s"
      by (intro impI at2)
    show "\<forall>s'. currentDbVersion s = 0 \<and> migrateDB ids s = Ok () s' \<longrightarrow>
            map row_id (todo_rows s')
              = map row_id (todo_rows s) @ (case ids of (a, b, c) \<Rightarrow> [a, b, c])"
      by (intro allI impI seeds)
    show "\<forall>s'. currentDbVersion s = 1 \<and> migrateDB ids s = Ok () s' \<longrightarrow>
            map row_id (todo_rows s') = map row_id (todo_rows s)"
      by (intro allI impI keeps)
  qed
qed

theorem migrateDB_steps_witness:
  "0 \<le> currentDbVersion fresh_store \<and> currentDbVersion fresh_store \<le> DATABASE_VERSION \<and>
   currentDbVersion fresh_store = 0 \<and>
   migrateDB_points (''id-1'', ''id-2'', ''id-3'') fresh_store = [(0, 0), (1, 0), (2, 0), (2, 2)] \<and>
   stepwise (map fst (migrateDB_points (''id-1'', ''id-2'', ''id-3'') fresh_store)) \<and>
   sorted (map snd (migrateDB_points (''id-1'', ''id-2'', ''id-3'') fresh_store)) \<and>
   map row_id (todo_rows (store_of (migrateDB (''id-1'', ''id-2'', ''id-3'') fresh_store)))
     = [''id-1'', ''id-2'', ''id-3''] \<and>
   0 \<le> currentDbVersion store_at_1 \<and> currentDbVersion store_at_1 \<le> DATABASE_VERSION \<and>
   currentDbVersion store_at_1 = 1 \<and>
   migrateDB_points (''id-1'', ''id-2'', ''id-3'') store_at_1 = [(1, 1), (1, 1), (2, 1), (2, 2)] \<and>
   stepwise (map fst (migrateDB_points (''id-1'', ''id-2'', ''id-3'') store_at_1)) \<and>
   map row_id (todo_rows (store_of (migrateDB (''id-1'', ''id-2'', ''id-3'') store_at_1))) = [''t0'']"
proof -
  let ?ids = "(''id-1'', ''id-2'', ''id-3'')"
  have h1: "0 \<le> currentDbVersion fresh_store"
    by (simp add: currentDbVersion_eq fresh_store_def)
  have h2: "currentDbVersion fresh_store \<le> DATABASE_VERSION"
    by (simp add: currentDbVersion_eq fresh_store_def DATABASE_VERSION_def)
  have h3: "currentDbVersion fresh_store = 0"
    by (simp add: currentDbVersion_eq fresh_store_def)
  have k1: "0 \<le> currentDbVersion store_at_1"
    by (simp add: currentDbVersion_eq store_at_1_def)
  have k2: "currentDbVersion store_at_1 \<le> DATABASE_VERSION"
    by (simp add: currentDbVersion_eq store_at_1_def DATABASE_VERSION_def)
  have k3: "currentDbVersion store_at_1 = 1"
    by (simp add: currentDbVersion_eq store_at_1_def)
  have pts0: "migrateDB_points ?ids fresh_store = [(0, 0), (1, 0), (2, 0), (2, 2)]"
    by (simp add: migrateDB_points_def mig_defs stmt_defs fresh_store_def)
  have pts1: "migrateDB_points ?ids store_at_1 = [(1, 1), (1, 1), (2, 1), (2, 2)]"
    by (simp add: migrateDB_points_def mig_defs stmt_defs store_at_1_def old_task_def Let_def)
  have ok0: "\<exists>s'. migrateDB ?ids fresh_store = Ok () s'"
    by (simp add: mig_defs stmt_defs fresh_store_def)
  have ok1: "\<exists>s'. migrateDB ?ids store_at_1 = Ok () s'"
    by (simp add: mig_defs stmt_defs store_at_1_def old_task_def Let_def)
  note inst0 = migrateDB_steps [OF h1 h2, of ?ids]
  note inst1 = migrateDB_steps [OF k1 k2, of ?ids]
  from ok0 obtain s0 where s0: "migrateDB ?ids fresh_store = Ok () s0" by blast
  from ok1 obtain s1 where s1: "migrateDB ?ids store_at_1 = Ok () s1" by blast
  from inst0 h3 s0 have "map row_id (todo_rows s0)
      = map row_id (todo_rows fresh_store) @ (case ?ids of (a, b, c) \<Rightarrow> [a, b, c])"
    by blast
  moreover have "todo_rows fresh_store = []" by (simp add: todo_rows_def fresh_store_def)
  ultimately have "map row_id (todo_rows s0) = [''id-1'', ''id-2'', ''id-3'']" by simp
  then have r0: "map row_id (todo_rows (store_of (migrateDB ?ids fresh_store)))
      = [''id-1'', ''id-2'', ''id-3'']"
    by (simp only: s0 store_of.simps)
  from inst1 k3 s1 have "map row_id (todo_rows s1) = map row_id (todo_rows store_at_1)"
    by blast
  moreover have "map row_id (todo_rows store_at_1) = [''t0'']"
    by (simp add: todo_rows_def store_at_1_def old_task_def)
  ultimately have "map row_id (todo_rows s1) = [''t0'']" by simp
  then have r1: "map row_id (todo_rows (store_of (migrateDB ?ids store_at_1))) = [''t0'']"
    by (simp only: s1 store_of.simps)
  have st0: "stepwise (map fst (migrateDB_points ?ids fresh_store))"
    by (rule inst0 [THEN conjunct1])
  have so0: "sorted (map snd (migrateDB_points ?ids fresh_store))"
    by (rule inst0 [THEN conjunct2, THEN conjunct1])
  have st1: "stepwise (map fst (migrateDB_points ?ids store_at_1))"
    by (rule inst1 [THEN conjunct1])
  show ?thesis
    by (intro conjI h1 h2 h3 pts0 st0 so0 r0 k1 k2 k3 pts1 st1 r1)
qed

section \<open>Data access: rows and their ids\<close>

lemma filter_id_none:
  "i \<notin> set (map row_id rs) \<Longrightarrow> filter (\<lambda>r. row_id r = i) rs = []"
  by (induction rs) auto

lemma map_id_none:
  "i \<notin> set (map row_id rs) \<Longrightarrow> map (\<lambda>r. if row_id r = i then f r else r) rs = rs"
  by (induction rs) auto

lemma filter_id_unique:
  "distinct (map row_id rs) \<Longrightarrow> r \<in> set rs \<Longrightarrow> filter (\<lambda>q. row_id q = row_id r) rs = [r]"
  by (induction rs) (auto simp: filter_id_none)

lemma filter_map_id:
  assumes "\<And>q. row_id (f q) = row_id q"
  shows "filter (\<lambda>q. row_id q = i) (map (\<lambda>q. if row_id q = i then f q else q) rs)
           = map f (filter (\<lambda>q. row_id q = i) rs)"
  using assms by (induction rs) auto

lemma store_same_rows:
  "todos s = Some t \<Longrightarrow> s\<lparr>todos := Some (t\<lparr>rows := rows t\<rparr>)\<rparr> = s"
  by (cases s) auto

lemma or_null_keep: "v \<noteq> Some [] \<Longrightarrow> or_null v = v"
  by (cases v) (auto simp: or_null_def truthy_def)

lemma or_null_not_empty: "or_null v \<noteq> Some []"
  by (cases v) (auto simp: or_null_def truthy_def)

lemma truthy_keep: "v \<noteq> Some [] \<Longrightarrow> (if truthy v then v else None) = v"
  by (cases v) (auto simp: truthy_def)

lemma same_id_same_row:
  "distinct (map row_id rs) \<Longrightarrow> r \<in> set rs \<Longrightarrow> q \<in> set rs \<Longrightarrow> row_id q = row_id r \<Longrightarrow> q = r"
  by (induction rs) (auto simp: image_iff)

lemma updateTodo_found:
  assumes t: "todos s = Some t" and cols: "has_v2_columns t"
    and pk: "distinct (map row_id (rows t))" and r: "r \<in> set (rows t)"
    and due: "(case upd_dueDate u of None \<Rightarrow> Inr (if truthy (row_dueDate r) then row_dueDate r else None)
               | Some d \<Rightarrow> (case toISOString api d of Inl e \<Rightarrow> Inl e | Inr x \<Rightarrow> Inr (Some x)))
              = Inr dueDate"
    and r': "r' = r\<lparr>row_text := (case upd_text u of None \<Rightarrow> row_text r | Some x \<Rightarrow> x),
                     row_notes := or_null (case upd_notes u of None \<Rightarrow> row_notes r | Some x \<Rightarrow> Some x),
                     row_dueDate := dueDate,
                     row_listId := (case upd_listId u of None \<Rightarrow> row_listId r | Some x \<Rightarrow> Some x)\<rparr>"
  shows "updateTodo api (row_id r) u s =
           Ok (Some (to_item api r'))
              (s\<lparr>todos := Some (t\<lparr>rows := map (\<lambda>q. if row_id q = row_id r then r' else q) (rows t)\<rparr>)\<rparr>)"
proof -
  let ?f = "\<lambda>q. q\<lparr>row_text := row_text r', row_notes := row_notes r',
                     row_dueDate := row_dueDate r', row_listId := row_listId r'\<rparr>"
  have found: "filter (\<lambda>q. row_id q = row_id r) (rows t) = [r]"
    using pk r by (rule filter_id_unique)
  have fr: "?f r = r'" by (simp add: r')
  have rows': "map (\<lambda>q. if row_id q = row_id r then ?f q else q) (rows t)
      = map (\<lambda>q. if row_id q = row_id r then r' else q) (rows t)"
  proof (rule map_cong [OF refl])
    fix q assume "q \<in> set (rows t)"
    then have "row_id q = row_id r \<Longrightarrow> q = r" using same_id_same_row [OF pk r] by blast
    then show "(if row_id q = row_id r then ?f q else q) = (if row_id q = row_id r then r' else q)"
      using fr by auto
  qed
  have ret: "filter (\<lambda>q. row_id q = row_id r) (map (\<lambda>q. if row_id q = row_id r then ?f q else q) (rows t))
      = [r']"
    by (subst filter_map_id) (simp_all add: found fr)
  have upd: "update_fields_returning (row_text r') (row_notes r') (row_dueDate r') (row_listId r')
        (row_id r) s
      = Inr ([r'], s\<lparr>todos := Some (t\<lparr>rows := map (\<lambda>q. if row_id q = row_id r then r' else q) (rows t)\<rparr>)\<rparr>)"
    unfolding update_fields_returning_def using t cols by (simp add: Let_def rows' ret [unfolded rows'])
  have sel: "select_todos_by_id (row_id r) s = Inr [r]"
    using t found by (simp add: select_todos_by_id_def)
  show ?thesis
    unfolding updateTodo_def sel
    using due upd by (simp add: getFirst_def Let_def r')
qed

lemma to_item_text: "to_item api (r\<lparr>row_text := x\<rparr>) = (to_item api r)\<lparr>item_text := x\<rparr>"
  by (simp add: to_item_def)

lemma to_item_done: "to_item api (r\<lparr>row_done := d\<rparr>) = (to_item api r)\<lparr>item_done := d\<rparr>"
  by (simp add: to_item_def)

lemma map_unique_row:
  assumes pk: "distinct (map row_id rs)" and r: "r \<in> set rs"
  shows "map (\<lambda>q. if row_id q = row_id r then f r else q) rs
       = map (\<lambda>q. if row_id q = row_id r then f q else q) rs"
proof (rule map_cong [OF refl])
  fix q assume "q \<in> set rs"
  then have "row_id q = row_id r \<Longrightarrow> q = r" using same_id_same_row [OF pk r] by blast
  then show "(if row_id q = row_id r then f r else q) = (if row_id q = row_id r then f q else q)"
    by auto
qed

lemma updateTodoStatus_found:
  assumes t: "todos s = Some t" and cols: "has_v2_columns t"
    and pk: "distinct (map row_id (rows t))" and r: "r \<in> set (rows t)"
  shows "updateTodoStatus api (row_id r) b s
         = Ok (Some ((to_item api r)\<lparr>item_done := (if b then 1 else 0)\<rparr>))
              (s\<lparr>todos := Some (t\<lparr>rows :=
                 map (\<lambda>q. if row_id q = row_id r then q\<lparr>row_done := (if b then 1 else 0)\<rparr> else q)
                   (rows t)\<rparr>)\<rparr>)"
proof -
  let ?d = "if b then 1 else 0 :: int"
  have found: "filter (\<lambda>q. row_id q = row_id r) (rows t) = [r]"
    using pk r by (rule filter_id_unique)
  have ret: "filter (\<lambda>q. row_id q = row_id r)
      (map (\<lambda>q. if row_id q = row_id r then q\<lparr>row_done := ?d\<rparr> else q) (rows t))
      = [r\<lparr>row_done := ?d\<rparr>]"
    by (subst filter_map_id) (simp_all add: found)
  have "update_done_returning ?d (row_id r) s
      = Inr ([r\<lparr>row_done := ?d\<rparr>],
             s\<lparr>todos := Some (t\<lparr>rows :=
                map (\<lambda>q. if row_id q = row_id r then q\<lparr>row_done := ?d\<rparr> else q) (rows t)\<rparr>)\<rparr>)"
    unfolding update_done_returning_def using t cols by (simp add: Let_def ret)
  then show ?thesis
    unfolding updateTodoStatus_def by (simp add: getFirst_def to_item_done)
qed

lemmas example_defs = store_at_2_def table_at_2_def lists_at_2_def task1_def task2_def
  demo_dates_def

section \<open>Updates of a task that does not exist\<close>

text \<open>
  C6. On a migrated store, for every id that matches no task, \<open>updateTodoStatus\<close> and
  \<open>updateTodo\<close> resolve with the absent result (null) instead of faulting, and leave the
  store exactly as it was.
\<close>

theorem update_absent:
  assumes "todos s = Some t" and "has_v2_columns t" and "id' \<notin> set (map row_id (rows t))"
  shows "updateTodoStatus api id' done s = Ok None s \<and> updateTodo api id' u s = Ok None s"
  using assms
  by (simp add: updateTodoStatus_def update_done_returning_def updateTodo_def
      select_todos_by_id_def filter_id_none map_id_none getFirst_def store_same_rows Let_def)

theorem update_absent_witness:
  "todos store_at_2 = Some table_at_2 \<and> has_v2_columns table_at_2 \<and>
   ''t9'' \<notin> set (map row_id (rows table_at_2)) \<and>
   updateTodoStatus demo_dates ''t9'' True store_at_2 = Ok None store_at_2 \<and>
   updateTodo demo_dates ''t9''
     \<lparr>upd_text = Some ''x'', upd_notes = None, upd_dueDate = None, upd_listId = None\<rparr> store_at_2
     = Ok None store_at_2"
proof -
  have h1: "todos store_at_2 = Some table_at_2" by (simp add: store_at_2_def)
  have h2: "has_v2_columns table_at_2" by (simp add: has_v2_columns_def table_at_2_def)
  have h3: "''t9'' \<notin> set (map row_id (rows table_at_2))"
    by (simp add: table_at_2_def task1_def task2_def)
  from h1 h2 h3 update_absent [OF h1 h2 h3] show ?thesis by blast
qed

section \<open>Partial update of a task\<close>

text \<open>
  C4. On a migrated store, for every existing task (its stored \<open>notes\<close> and \<open>dueDate\<close>
  being NULL or non-empty, as the data layer writes them), \<open>updateTodo\<close> with an argument
  that holds only a new text changes only the text: the returned record is the task's
  record with \<open>text\<close> replaced, and in the table the task's row differs from before in
  \<open>text\<close> only, every other row being untouched. More generally, for any update whose
  \<open>dueDate\<close>, if given, is a valid date, the written and returned row keeps \<open>id\<close>, \<open>done\<close>
  and \<open>createdAt\<close>, and keeps each of \<open>text\<close>, \<open>notes\<close>, \<open>dueDate\<close>, \<open>listId\<close> that the
  update omits.
\<close>

theorem updateTodo_frame:
  assumes t: "todos s = Some t" and cols: "has_v2_columns t"
    and pk: "distinct (map row_id (rows t))" and r: "r \<in> set (rows t)"
    and n: "row_notes r \<noteq> Some []" and d: "row_dueDate r \<noteq> Some []"
  shows "updateTodo api (row_id r)
           \<lparr>upd_text = Some x, upd_notes = None, upd_dueDate = None, upd_listId = None\<rparr> s
         = Ok (Some ((to_item api r)\<lparr>item_text := x\<rparr>))
              (s\<lparr>todos := Some (t\<lparr>rows :=
                 map (\<lambda>q. if row_id q = row_id r then q\<lparr>row_text := x\<rparr> else q) (rows t)\<rparr>)\<rparr>)
       \<and> (upd_dueDate u \<noteq> Some InvalidDate \<longrightarrow>
           (\<exists>r'. updateTodo api (row_id r) u s
                  = Ok (Some (to_item api r'))
                       (s\<lparr>todos := Some (t\<lparr>rows :=
                          map (\<lambda>q. if row_id q = row_id r then r' else q) (rows t)\<rparr>)\<rparr>)
              \<and> row_id r' = row_id r \<and> row_done r' = row_done r
              \<and> row_createdAt r' = row_createdAt r
              \<and> (upd_text u = None \<longrightarrow> row_text r' = row_text r)
              \<and> (upd_notes u = None \<longrightarrow> row_notes r' = row_notes r)
              \<and> (upd_dueDate u = None \<longrightarrow> row_dueDate r' = row_dueDate r)
              \<and> (upd_listId u = None \<longrightarrow> row_listId r' = row_listId r)))"
proof -
  let ?only = "\<lparr>upd_text = Some x, upd_notes = None, upd_dueDate = None, upd_listId = None\<rparr>"
  have keep_due: "(if truthy (row_dueDate r) then row_dueDate r else None) = row_dueDate r"
    using d by (rule truthy_keep)
  have keep_notes: "or_null (row_notes r) = row_notes r"
    using n by (rule or_null_keep)
  have "updateTodo api (row_id r) ?only s
      = Ok (Some (to_item api (r\<lparr>row_text := x\<rparr>)))
           (s\<lparr>todos := Some (t\<lparr>rows :=
              map (\<lambda>q. if row_id q = row_id r then r\<lparr>row_text := x\<rparr> else q) (rows t)\<rparr>)\<rparr>)"
    by (rule updateTodo_found [OF t cols pk r, where dueDate = "row_dueDate r"])
       (simp_all add: keep_due keep_notes)
  then have first: "updateTodo api (row_id r) ?only s
      = Ok (Some ((to_item api r)\<lparr>item_text := x\<rparr>))
           (s\<lparr>todos := Some (t\<lparr>rows :=
              map (\<lambda>q. if row_id q = row_id r then q\<lparr>row_text := x\<rparr> else q) (rows t)\<rparr>)\<rparr>)"
    by (simp only: to_item_text map_unique_row [OF pk r, where f = "\<lambda>q. q\<lparr>row_text := x\<rparr>"])
  have general: "\<exists>r'. updateTodo api (row_id r) u s
                  = Ok (Some (to_item api r'))
                       (s\<lparr>todos := Some (t\<lparr>rows :=
                          map (\<lambda>q. if row_id q = row_id r then r' else q) (rows t)\<rparr>)\<rparr>)
              \<and> row_id r' = row_id r \<and> row_done r' = row_done r
              \<and> row_createdAt r' = row_createdAt r
              \<and> (upd_text u = None \<longrightarrow> row_text r' = row_text r)
              \<and> (upd_notes u = None \<longrightarrow> row_notes r' = row_notes r)
              \<and> (upd_dueDate u = None \<longrightarrow> row_dueDate r' = row_dueDate r)
              \<and> (upd_listId u = None \<longrightarrow> row_listId r' = row_listId r)"
    if valid: "upd_dueDate u \<noteq> Some InvalidDate"
  proof -
    obtain dueDate where due:
      "(case upd_dueDate u of
          None \<Rightarrow> Inr (if truthy (row_dueDate r) then row_dueDate r else None)
        | Some d \<Rightarrow> (case toISOString api d of Inl e \<Rightarrow> Inl e | Inr x \<Rightarrow> Inr (Some x)))
       = Inr dueDate"
      and due_keep: "upd_dueDate u = None \<longrightarrow> dueDate = row_dueDate r"
    proof (cases "upd_dueDate u")
      case None
      with keep_due that show ?thesis by simp
    next
      case (Some dd)
      with valid obtain ms where "dd = Instant ms" by (cases dd) auto
      with Some that show ?thesis by (simp add: toISOString_def)
    qed
    define r' where
      "r' = r\<lparr>row_text := (case upd_text u of None \<Rightarrow> row_text r | Some x \<Rightarrow> x),
              row_notes := or_null (case upd_notes u of None \<Rightarrow> row_notes r | Some x \<Rightarrow> Some x),
              row_dueDate := dueDate,
              row_listId := (case upd_listId u of None \<Rightarrow> row_listId r | Some x \<Rightarrow> Some x)\<rparr>"
    have res: "updateTodo api (row_id r) u s
        = Ok (Some (to_item api r'))
             (s\<lparr>todos := Some (t\<lparr>rows :=
                map (\<lambda>q. if row_id q = row_id r then r' else q) (rows t)\<rparr>)\<rparr>)"
      using t cols pk r due r'_def by (rule updateTodo_found)
    have props: "row_id r' = row_id r" "row_done r' = row_done r"
        "row_createdAt r' = row_createdAt r"
        "upd_text u = None \<longrightarrow> row_text r' = row_text r"
        "upd_notes u = None \<longrightarrow> row_notes r' = row_notes r"
        "upd_dueDate u = None \<longrightarrow> row_dueDate r' = row_dueDate r"
        "upd_listId u = None \<longrightarrow> row_listId r' = row_listId r"
      using due_keep keep_notes by (simp_all add: r'_def)
    show ?thesis by (intro exI [of _ r'] conjI res props)
  qed
  show ?thesis by (intro conjI impI first general)
qed

theorem updateTodo_frame_witness:
  "todos store_at_2 = Some table_at_2 \<and> has_v2_columns table_at_2 \<and>
   distinct (map row_id (rows table_at_2)) \<and> task1 \<in> set (rows table_at_2) \<and>
   row_notes task1 \<noteq> Some [] \<and> row_dueDate task1 \<noteq> Some [] \<and>
   updateTodo demo_dates ''t1''
     \<lparr>upd_text = Some ''buy oat milk'', upd_notes = None, upd_dueDate = None, upd_listId = None\<rparr>
     store_at_2
   = Ok (Some ((to_item demo_dates task1)\<lparr>item_text := ''buy oat milk''\<rparr>))
        (store_at_2\<lparr>todos := Some (table_at_2\<lparr>rows := [task1\<lparr>row_text := ''buy oat milk''\<rparr>, task2]\<rparr>)\<rparr>) \<and>
   upd_dueDate \<lparr>upd_text = None, upd_notes = Some ''skimmed'', upd_dueDate = None,
                upd_listId = None\<rparr> \<noteq> Some InvalidDate \<and>
   (\<exists>r'. updateTodo demo_dates ''t1''
            \<lparr>upd_text = None, upd_notes = Some ''skimmed'', upd_dueDate = None, upd_listId = None\<rparr>
            store_at_2
          = Ok (Some (to_item demo_dates r'))
               (store_at_2\<lparr>todos := Some (table_at_2\<lparr>rows := [r', task2]\<rparr>)\<rparr>) \<and>
          row_text r' = ''buy milk'' \<and> row_dueDate r' = Some ''2024-05-01T10:00:00.000Z'' \<and>
          row_listId r' = Some ''default-list'')"
proof -
  let ?u = "\<lparr>upd_text = None, upd_notes = Some ''skimmed'', upd_dueDate = None, upd_listId = None\<rparr>"
  have h1: "todos store_at_2 = Some table_at_2" by (simp add: store_at_2_def)
  have h2: "has_v2_columns table_at_2" by (simp add: has_v2_columns_def table_at_2_def)
  have h3: "distinct (map row_id (rows table_at_2))"
    by (simp add: table_at_2_def task1_def task2_def)
  have h4: "task1 \<in> set (rows table_at_2)" by (simp add: table_at_2_def)
  have h5: "row_notes task1 \<noteq> Some []" by (simp add: task1_def)
  have h6: "row_dueDate task1 \<noteq> Some []" by (simp add: task1_def)
  have h7: "upd_dueDate ?u \<noteq> Some InvalidDate" by simp
  have id1: "row_id task1 = ''t1''" by (simp add: task1_def)
  have rws: "map (\<lambda>q. if row_id q = ''t1'' then f q else q) (rows table_at_2) = [f task1, task2]" for f
    by (simp add: table_at_2_def task1_def task2_def)
  have rws': "map (\<lambda>q. if row_id q = ''t1'' then r' else q) (rows table_at_2) = [r', task2]" for r'
    by (simp add: table_at_2_def task1_def task2_def)
  have vals: "row_text task1 = ''buy milk''" "row_dueDate task1 = Some ''2024-05-01T10:00:00.000Z''"
    "row_listId task1 = Some ''default-list''"
    by (simp_all add: task1_def)
  note inst = updateTodo_frame [OF h1 h2 h3 h4 h5 h6, of demo_dates "''buy oat milk''" ?u,
      unfolded id1 rws rws' vals]
  from inst h7 have ex: "\<exists>r'. updateTodo demo_dates ''t1'' ?u store_at_2
          = Ok (Some (to_item demo_dates r'))
               (store_at_2\<lparr>todos := Some (table_at_2\<lparr>rows := [r', task2]\<rparr>)\<rparr>) \<and>
          row_text r' = ''buy milk'' \<and> row_dueDate r' = Some ''2024-05-01T10:00:00.000Z'' \<and>
          row_listId r' = Some ''default-list''"
    by auto
  show ?thesis
    by (intro conjI h1 h2 h3 h4 h5 h6 h7 ex conjunct1 [OF inst])
qed

section \<open>Toggling the completion flag\<close>

text \<open>
  C7, as stated, fails for a task that is done: \<open>updateTodoStatus(id, true)\<close> followed by
  \<open>updateTodoStatus(id, false)\<close> leaves \<open>done = 0\<close>, not the original 1. In the example
  store the first task is done; after the two calls it is not.
\<close>

theorem status_toggle_not_restored:
  "map row_done (todo_rows store_at_2) = [1, 0] \<and>
   map row_done (todo_rows (store_of (updateTodoStatus demo_dates ''t1'' False
     (store_of (updateTodoStatus demo_dates ''t1'' True store_at_2))))) = [0, 0] \<and>
   todo_rows (store_of (updateTodoStatus demo_dates ''t1'' False
     (store_of (updateTodoStatus demo_dates ''t1'' True store_at_2)))) \<noteq> todo_rows store_at_2"
  by (simp add: updateTodoStatus_def update_done_returning_def getFirst_def todo_rows_def
      has_v2_columns_def Let_def example_defs)

text \<open>
  C7, amended. On a migrated store, for every existing task, \<open>updateTodoStatus(id, true)\<close>
  resolves with the task's record with \<open>done = 1\<close> and \<open>updateTodoStatus(id, false)\<close> after it
  with the task's record with \<open>done = 0\<close>; after each call the table differs from the
  original in the \<open>done\<close> column of that task's row at most, and nothing else in the store
  changes. The original store is restored exactly when the task was not done before.
\<close>

theorem updateTodoStatus_on_off:
  assumes t: "todos s = Some t" and cols: "has_v2_columns t"
    and pk: "distinct (map row_id (rows t))" and r: "r \<in> set (rows t)"
  shows "\<exists>s1 s2.
     updateTodoStatus api (row_id r) True s = Ok (Some ((to_item api r)\<lparr>item_done := 1\<rparr>)) s1 \<and>
     updateTodoStatus api (row_id r) False s1 = Ok (Some ((to_item api r)\<lparr>item_done := 0\<rparr>)) s2 \<and>
     s1 = s\<lparr>todos := Some (t\<lparr>rows :=
            map (\<lambda>q. if row_id q = row_id r then q\<lparr>row_done := 1\<rparr> else q) (rows t)\<rparr>)\<rparr> \<and>
     s2 = s\<lparr>todos := Some (t\<lparr>rows :=
            map (\<lambda>q. if row_id q = row_id r then q\<lparr>row_done := 0\<rparr> else q) (rows t)\<rparr>)\<rparr> \<and>
     (row_done r = 0 \<longrightarrow> s2 = s) \<and> (s2 = s \<longrightarrow> row_done r = 0)"
proof -
  let ?on = "\<lambda>q. if row_id q = row_id r then q\<lparr>row_done := 1\<rparr> else q"
  let ?off = "\<lambda>q. if row_id q = row_id r then q\<lparr>row_done := 0\<rparr> else q"
  define t1 where "t1 = t\<lparr>rows := map ?on (rows t)\<rparr>"
  define s1 where "s1 = s\<lparr>todos := Some t1\<rparr>"
  define s2 where "s2 = s\<lparr>todos := Some (t\<lparr>rows := map ?off (rows t)\<rparr>)\<rparr>"
  let ?r1 = "r\<lparr>row_done := 1\<rparr>"
  have first: "updateTodoStatus api (row_id r) True s
      = Ok (Some ((to_item api r)\<lparr>item_done := 1\<rparr>)) s1"
    using updateTodoStatus_found [OF t cols pk r, of api True] by (simp add: s1_def t1_def)
  have t1: "todos s1 = Some t1" by (simp add: s1_def)
  have cols1: "has_v2_columns t1" using cols by (simp add: t1_def has_v2_columns_def)
  have ids1: "map row_id (rows t1) = map row_id (rows t)"
    by (simp add: t1_def comp_def if_distrib [of row_id] cong: if_cong)
  have pk1: "distinct (map row_id (rows t1))" using pk by (simp only: ids1)
  have r1: "?r1 \<in> set (rows t1)"
    using r by (auto simp: t1_def image_iff intro!: bexI [of _ r])
  have comp: "map (\<lambda>q. if row_id q = row_id r then q\<lparr>row_done := 0\<rparr> else q) (rows t1)
      = map ?off (rows t)"
    by (simp add: t1_def comp_def if_distrib cong: if_cong)
  have second: "updateTodoStatus api (row_id r) False s1
      = Ok (Some ((to_item api r)\<lparr>item_done := 0\<rparr>)) s2"
    using updateTodoStatus_found [OF t1 cols1 pk1 r1, of api False]
    by (simp add: to_item_done comp s1_def s2_def t1_def)
  have restore: "s2 = s" if "row_done r = 0"
  proof -
    have "map ?off (rows t) = rows t"
    proof (rule map_idI)
      fix q assume q: "q \<in> set (rows t)"
      then have "row_id q = row_id r \<Longrightarrow> q = r" using same_id_same_row [OF pk r] by blast
      with that show "?off q = q" by auto
    qed
    then show ?thesis using t by (simp add: s2_def store_same_rows)
  qed
  have changed: "row_done r = 0" if "s2 = s"
  proof -
    from that have "todos s2 = todos s" by simp
    moreover have "todos s2 = Some (t\<lparr>rows := map ?off (rows t)\<rparr>)" by (simp add: s2_def)
    ultimately have "t\<lparr>rows := map ?off (rows t)\<rparr> = t" using t by simp
    then have "rows (t\<lparr>rows := map ?off (rows t)\<rparr>) = rows t" by (rule arg_cong)
    then have "map ?off (rows t) = map (\<lambda>q. q) (rows t)" by simp
    then have "\<forall>q \<in> set (rows t). ?off q = q" by (simp only: map_eq_conv)
    with r have "r\<lparr>row_done := 0\<rparr> = r" by auto
    then have "row_done (r\<lparr>row_done := 0\<rparr>) = row_done r" by simp
    then show ?thesis by simp
  qed
  show ?thesis
  proof (rule exI [of _ s1], rule exI [of _ s2], intro conjI)
    show "updateTodoStatus api (row_id r) True s
        = Ok (Some ((to_item api r)\<lparr>item_done := 1\<rparr>)) s1"
      by (rule first)
    show "updateTodoStatus api (row_id r) False s1
        = Ok (Some ((to_item api r)\<lparr>item_done := 0\<rparr>)) s2"
      by (rule second)
    show "s1 = s\<lparr>todos := Some (t\<lparr>rows := map ?on (rows t)\<rparr>)\<rparr>"
      by (simp add: s1_def t1_def)
    show "s2 = s\<lparr>todos := Some (t\<lparr>rows := map ?off (rows t)\<rparr>)\<rparr>"
      by (simp add: s2_def)
    show "row_done r = 0 \<longrightarrow> s2 = s" using restore by blast
    show "s2 = s \<longrightarrow> row_done r = 0" using changed by blast
  qed
qed

theorem updateTodoStatus_on_off_witness:
  "todos store_at_2 = Some table_at_2 \<and> has_v2_columns table_at_2 \<and>
   distinct (map row_id (rows table_at_2)) \<and> task2 \<in> set (rows table_at_2) \<and>
   row_done task2 = 0 \<and>
   (\<exists>s1. updateTodoStatus demo_dates ''t2'' True store_at_2
             = Ok (Some ((to_item demo_dates task2)\<lparr>item_done := 1\<rparr>)) s1 \<and>
          updateTodoStatus demo_dates ''t2'' False s1
             = Ok (Some ((to_item demo_dates task2)\<lparr>item_done := 0\<rparr>)) store_at_2)"
proof -
  have h1: "todos store_at_2 = Some table_at_2" by (simp add: store_at_2_def)
  have h2: "has_v2_columns table_at_2" by (simp add: has_v2_columns_def table_at_2_def)
  have h3: "distinct (map row_id (rows table_at_2))"
    by (simp add: table_at_2_def task1_def task2_def)
  have h4: "task2 \<in> set (rows table_at_2)" by (simp add: table_at_2_def)
  have h5: "row_done task2 = 0" by (simp add: task2_def)
  have id2: "row_id task2 = ''t2''" by (simp add: task2_def)
  have "\<exists>s1. updateTodoStatus demo_dates ''t2'' True store_at_2
             = Ok (Some ((to_item demo_dates task2)\<lparr>item_done := 1\<rparr>)) s1 \<and>
          updateTodoStatus demo_dates ''t2'' False s1
             = Ok (Some ((to_item demo_dates task2)\<lparr>item_done := 0\<rparr>)) store_at_2"
    using updateTodoStatus_on_off [OF h1 h2 h3 h4, of demo_dates, unfolded id2]
  proof (elim exE conjE)
    fix s1 s2
    assume a: "updateTodoStatus demo_dates ''t2'' True store_at_2
        = Ok (Some ((to_item demo_dates task2)\<lparr>item_done := 1\<rparr>)) s1"
      and b: "updateTodoStatus demo_dates ''t2'' False s1
        = Ok (Some ((to_item demo_dates task2)\<lparr>item_done := 0\<rparr>)) s2"
      and c: "row_done task2 = 0 \<longrightarrow> s2 = store_at_2"
    from c h5 have "s2 = store_at_2" by simp
    with a b show ?thesis by (intro exI [of _ s1] conjI) simp_all
  qed
  with h1 h2 h3 h4 h5 show ?thesis by (intro conjI)
qed

section \<open>Creating a task\<close>

text \<open>
  C5. On a migrated store, for every text and optional \<open>listId\<close>, \<open>notes\<close> and (valid)
  \<open>dueDate\<close>, with a generated id that is not in the table and a \<open>Date\<close> interface on which
  parsing the ISO string of the current instant gives that instant back, \<open>createTodo\<close>
  resolves with a record and appends exactly one row, the record being that row's: its
  \<open>done\<close> is 0 (false), its \<open>createdAt\<close> is the instant of creation, its \<open>listId\<close> is the
  given one or \<open>default-list\<close> when none is given, and its \<open>id\<close> is the generated id.
\<close>

theorem createTodo_result:
  assumes t: "todos s = Some t" and cols: "has_v2_columns t"
    and fresh: "id' \<notin> set (map row_id (rows t))"
    and valid: "dueDate \<noteq> Some InvalidDate"
    and clock: "date_of api (iso_of api now) = Instant now"
  shows "\<exists>item r.
     createTodo api id' now txt listId notes dueDate s
       = Ok (Some item) (s\<lparr>todos := Some (t\<lparr>rows := rows t @ [r]\<rparr>)\<rparr>) \<and>
     item = to_item api r \<and>
     item_id item = id' \<and> item_text item = txt \<and> item_done item = 0 \<and>
     item_createdAt item = Instant now \<and>
     item_listId item = Some (case listId of None \<Rightarrow> ''default-list'' | Some l \<Rightarrow> l) \<and>
     row_id r = id' \<and> row_text r = txt \<and> row_done r = 0 \<and>
     row_createdAt r = iso_of api now \<and> row_listId r = item_listId item"
proof -
  obtain dueDateString where due:
    "(case dueDate of None \<Rightarrow> Inr None
      | Some d \<Rightarrow> (case toISOString api d of Inl e \<Rightarrow> Inl e | Inr x \<Rightarrow> Inr (Some x)))
     = Inr dueDateString"
  proof (cases dueDate)
    case None
    with that show ?thesis by simp
  next
    case (Some d)
    with valid obtain ms where "d = Instant ms" by (cases d) auto
    with Some that show ?thesis by (simp add: toISOString_def)
  qed
  define r where
    "r = \<lparr>row_id = id', row_text = txt, row_done = 0, row_createdAt = iso_of api now,
          row_listId = Some (case listId of None \<Rightarrow> ''default-list'' | Some l \<Rightarrow> l),
          row_notes = or_null notes, row_dueDate = dueDateString\<rparr>"
  have ins: "insert_todo_returning id' txt (iso_of api now)
        (case listId of None \<Rightarrow> ''default-list'' | Some l \<Rightarrow> l) (or_null notes) dueDateString s
      = Inr ([r], s\<lparr>todos := Some (t\<lparr>rows := rows t @ [r]\<rparr>)\<rparr>)"
    using t cols fresh by (simp add: insert_todo_returning_def r_def Let_def)
  have res: "createTodo api id' now txt listId notes dueDate s
      = Ok (Some (to_item api r)) (s\<lparr>todos := Some (t\<lparr>rows := rows t @ [r]\<rparr>)\<rparr>)"
    unfolding createTodo_def Let_def due using ins by (simp add: getFirst_def)
  have props: "item_id (to_item api r) = id'" "item_text (to_item api r) = txt"
      "item_done (to_item api r) = 0" "item_createdAt (to_item api r) = Instant now"
      "item_listId (to_item api r) = Some (case listId of None \<Rightarrow> ''default-list'' | Some l \<Rightarrow> l)"
      "row_id r = id'" "row_text r = txt" "row_done r = 0" "row_createdAt r = iso_of api now"
      "row_listId r = item_listId (to_item api r)"
    using clock by (simp_all add: to_item_def r_def)
  show ?thesis
    by (intro exI [of _ "to_item api r"] exI [of _ r] conjI res props refl)
qed

theorem createTodo_result_witness:
  "todos store_at_2 = Some table_at_2 \<and> has_v2_columns table_at_2 \<and>
   ''t3'' \<notin> set (map row_id (rows table_at_2)) \<and>
   Some (Instant 0) \<noteq> Some InvalidDate \<and>
   date_of demo_dates (iso_of demo_dates 1714557600000) = Instant 1714557600000 \<and>
   (\<exists>item r.
     createTodo demo_dates ''t3'' 1714557600000 ''call Ana'' None None (Some (Instant 0)) store_at_2
       = Ok (Some item) (store_at_2\<lparr>todos := Some (table_at_2\<lparr>rows := rows table_at_2 @ [r]\<rparr>)\<rparr>) \<and>
     item_id item = ''t3'' \<and> item_done item = 0 \<and>
     item_createdAt item = Instant 1714557600000 \<and>
     item_listId item = Some ''default-list'')"
proof -
  have h1: "todos store_at_2 = Some table_at_2" by (simp add: store_at_2_def)
  have h2: "has_v2_columns table_at_2" by (simp add: has_v2_columns_def table_at_2_def)
  have h3: "''t3'' \<notin> set (map row_id (rows table_at_2))"
    by (simp add: table_at_2_def task1_def task2_def)
  have h4: "Some (Instant 0) \<noteq> Some InvalidDate" by simp
  have h5: "date_of demo_dates (iso_of demo_dates 1714557600000) = Instant 1714557600000"
    by (simp add: demo_dates_def)
  from createTodo_result [OF h1 h2 h3 h4 h5, of "''call Ana''" None None]
  have "\<exists>item r.
     createTodo demo_dates ''t3'' 1714557600000 ''call Ana'' None None (Some (Instant 0)) store_at_2
       = Ok (Some item) (store_at_2\<lparr>todos := Some (table_at_2\<lparr>rows := rows table_at_2 @ [r]\<rparr>)\<rparr>) \<and>
     item_id item = ''t3'' \<and> item_done item = 0 \<and>
     item_createdAt item = Instant 1714557600000 \<and>
     item_listId item = Some ''default-list''"
    by (elim exE conjE, intro exI conjI) simp_all
  with h1 h2 h3 h4 h5 show ?thesis by (intro conjI)
qed

section \<open>Reading tasks by list\<close>

text \<open>
  C8, as stated, fails for the empty string: \<open>if (listId)\<close> takes a given \<open>''\<close> for a
  missing argument, so \<open>getTodosByList(db, '')\<close> returns every task, although no task of
  the example store has \<open>listId = ''\<close>.
\<close>

theorem getTodosByList_empty_string:
  "getTodosByList demo_dates (Some []) store_at_2 = getAllTodos demo_dates store_at_2 \<and>
   filter (\<lambda>r. row_listId r = Some []) (todo_rows store_at_2) = [] \<and>
   getTodosByList demo_dates (Some []) store_at_2 \<noteq> Ok [] store_at_2"
  by (simp add: getTodosByList_def getAllTodos_def select_todos_def truthy_def todo_rows_def
      example_defs)

text \<open>
  C8, amended. On a store whose table \<open>todos\<close> has the column \<open>listId\<close>: for a non-empty
  \<open>listId\<close>, \<open>getTodosByList\<close> resolves with exactly the tasks whose \<open>listId\<close> equals it, in
  table order, and with the empty sequence when no task has it; when the argument is
  omitted or is the empty string, it resolves with what \<open>getAllTodos\<close> resolves with,
  which is every task. It never faults and never changes the store.
\<close>

theorem getTodosByList_result:
  assumes t: "todos s = Some t" and col: "has_listId t"
  shows "(l \<noteq> [] \<longrightarrow>
            getTodosByList api (Some l) s
              = Ok (map (to_item api) (filter (\<lambda>r. row_listId r = Some l) (rows t))) s) \<and>
         (l \<noteq> [] \<and> Some l \<notin> set (map row_listId (rows t)) \<longrightarrow>
            getTodosByList api (Some l) s = Ok [] s) \<and>
         getTodosByList api None s = getAllTodos api s \<and>
         getTodosByList api (Some []) s = getAllTodos api s \<and>
         getAllTodos api s = Ok (map (to_item api) (rows t)) s"
proof -
  have nomatch: "filter (\<lambda>r. row_listId r = Some l) (rows t) = []"
    if "Some l \<notin> set (map row_listId (rows t))"
    using that by (force simp: filter_empty_conv)
  show ?thesis
    using t col nomatch
    by (auto simp: getTodosByList_def getAllTodos_def select_todos_def select_todos_by_list_def
        truthy_def)
qed

theorem getTodosByList_result_witness:
  "todos store_at_2 = Some table_at_2 \<and> has_listId table_at_2 \<and>
   ''l1'' \<noteq> [] \<and>
   getTodosByList demo_dates (Some ''l1'') store_at_2 = Ok [to_item demo_dates task2] store_at_2 \<and>
   ''nonexistent-id'' \<noteq> [] \<and>
   Some ''nonexistent-id'' \<notin> set (map row_listId (rows table_at_2)) \<and>
   getTodosByList demo_dates (Some ''nonexistent-id'') store_at_2 = Ok [] store_at_2 \<and>
   getTodosByList demo_dates None store_at_2
     = Ok [to_item demo_dates task1, to_item demo_dates task2] store_at_2"
proof -
  have h1: "todos store_at_2 = Some table_at_2" by (simp add: store_at_2_def)
  have h2: "has_listId table_at_2" by (simp add: table_at_2_def)
  have h3: "''l1'' \<noteq> []" by simp
  have h4: "''nonexistent-id'' \<noteq> []" by simp
  have h5: "Some ''nonexistent-id'' \<notin> set (map row_listId (rows table_at_2))"
    by (simp add: table_at_2_def task1_def task2_def)
  have f: "filter (\<lambda>r. row_listId r = Some ''l1'') (rows table_at_2) = [task2]"
    by (simp add: table_at_2_def task1_def task2_def)
  have r: "rows table_at_2 = [task1, task2]" by (simp add: table_at_2_def)
  from getTodosByList_result [OF h1 h2, of "''l1''" demo_dates] h3
  have a: "getTodosByList demo_dates (Some ''l1'') store_at_2 = Ok [to_item demo_dates task2] store_at_2"
    by (simp add: f)
  from getTodosByList_result [OF h1 h2, of "''nonexistent-id''" demo_dates] h4 h5
  have b: "getTodosByList demo_dates (Some ''nonexistent-id'') store_at_2 = Ok [] store_at_2"
    by blast
  from getTodosByList_result [OF h1 h2, of "''l1''" demo_dates]
  have c: "getTodosByList demo_dates None store_at_2
     = Ok [to_item demo_dates task1, to_item demo_dates task2] store_at_2"
    by (simp add: r)
  from h1 h2 h3 h4 h5 a b c show ?thesis by (intro conjI)
qed

section \<open>Reading the lists\<close>

text \<open>
  C9. Whenever the table \<open>todo_lists\<close> exists, whatever the order of its rows,
  \<open>getAllLists\<close> resolves with all of its rows (the same rows, each as often) sorted
  ascending by \<open>name\<close> in the lexicographic order of their characters.
\<close>

theorem getAllLists_sorted:
  assumes "todo_lists s = Some ls"
  shows "\<exists>result. getAllLists s = Ok result s \<and> sorted (map list_name result) \<and>
           mset result = mset ls"
  using assms by (simp add: getAllLists_def select_lists_by_name_def)

theorem getAllLists_sorted_witness:
  "todo_lists store_at_2 = Some lists_at_2 \<and>
   (\<exists>result. getAllLists store_at_2 = Ok result store_at_2 \<and>
      sorted (map list_name result) \<and> mset result = mset lists_at_2) \<and>
   map list_name (sort_key list_name lists_at_2) = [''Apple'', ''Todas as Tarefas'', ''Work'', ''Z'']"
proof -
  have h: "todo_lists store_at_2 = Some lists_at_2" by (simp add: store_at_2_def)
  have names: "map list_name (sort_key list_name lists_at_2)
      = [''Apple'', ''Todas as Tarefas'', ''Work'', ''Z'']"
    by code_simp
  from h names getAllLists_sorted [OF h] show ?thesis by blast
qed

section \<open>Write operations, case by case\<close>

lemma getFirst_filter_Some:
  "getFirst (filter P xs) = Some x \<Longrightarrow> x \<in> set xs \<and> P x"
proof -
  assume a: "getFirst (filter P xs) = Some x"
  then obtain ys where "filter P xs = x # ys"
    by (cases "filter P xs") (auto simp: getFirst_def)
  then have "x \<in> set (filter P xs)" by simp
  then show ?thesis by simp
qed

lemma updateTodo_cases:
  "(updateTodo api i u s = Ok None s \<or> (\<exists>e. updateTodo api i u s = Fault e s)) \<or>
   (\<exists>t todo dueDate rs.
      todos s = Some t \<and> getFirst (filter (\<lambda>r. row_id r = i) (rows t)) = Some todo \<and>
      rs = map (\<lambda>r. if row_id r = i
                    then r\<lparr>row_text := (case upd_text u of None \<Rightarrow> row_text todo | Some x \<Rightarrow> x),
                           row_notes := or_null (case upd_notes u of None \<Rightarrow> row_notes todo
                                                 | Some x \<Rightarrow> Some x),
                           row_dueDate := dueDate,
                           row_listId := (case upd_listId u of None \<Rightarrow> row_listId todo
                                          | Some x \<Rightarrow> Some x)\<rparr>
                    else r) (rows t) \<and>
      updateTodo api i u s
        = Ok (map_option (to_item api) (getFirst (filter (\<lambda>r. row_id r = i) rs)))
             (s\<lparr>todos := Some (t\<lparr>rows := rs\<rparr>)\<rparr>) \<and>
      ((\<forall>ms. iso_of api ms \<noteq> []) \<longrightarrow> dueDate \<noteq> Some []))"
proof (cases "todos s")
  case None
  then show ?thesis by (simp add: updateTodo_def select_todos_by_id_def)
next
  case (Some t)
  note t = this
  show ?thesis
  proof (cases "getFirst (filter (\<lambda>r. row_id r = i) (rows t))")
    case None
    with t show ?thesis by (simp add: updateTodo_def select_todos_by_id_def)
  next
    case (Some todo)
    note todo = this
    let ?due = "case upd_dueDate u of
                  None \<Rightarrow> Inr (if truthy (row_dueDate todo) then row_dueDate todo else None)
                | Some d \<Rightarrow> (case toISOString api d of Inl e \<Rightarrow> Inl e | Inr x \<Rightarrow> Inr (Some x))"
    show ?thesis
    proof (cases ?due)
      case (Inl e)
      with t todo show ?thesis
        by (simp add: updateTodo_def select_todos_by_id_def Let_def)
    next
      case (Inr dueDate)
      note due = this
      show ?thesis
      proof (cases "has_v2_columns t")
        case False
        with t todo due show ?thesis
          by (simp add: updateTodo_def select_todos_by_id_def update_fields_returning_def Let_def)
      next
        case True
        let ?rs = "map (\<lambda>r. if row_id r = i
                    then r\<lparr>row_text := (case upd_text u of None \<Rightarrow> row_text todo | Some x \<Rightarrow> x),
                           row_notes := or_null (case upd_notes u of None \<Rightarrow> row_notes todo
                                                 | Some x \<Rightarrow> Some x),
                           row_dueDate := dueDate,
                           row_listId := (case upd_listId u of None \<Rightarrow> row_listId todo
                                          | Some x \<Rightarrow> Some x)\<rparr>
                    else r) (rows t)"
        have "updateTodo api i u s
            = Ok (map_option (to_item api) (getFirst (filter (\<lambda>r. row_id r = i) ?rs)))
                 (s\<lparr>todos := Some (t\<lparr>rows := ?rs\<rparr>)\<rparr>)"
          using t todo due True
          by (simp add: updateTodo_def select_todos_by_id_def update_fields_returning_def Let_def
              split: option.splits)
        moreover have "(\<forall>ms. iso_of api ms \<noteq> []) \<longrightarrow> dueDate \<noteq> Some []"
        proof (cases "upd_dueDate u")
          case None
          with due show ?thesis by (auto simp: truthy_def split: if_splits)
        next
          case (Some dd)
          with due show ?thesis by (cases dd) (auto simp: toISOString_def)
        qed
        ultimately show ?thesis
          using t todo
          by (intro disjI2 exI [of _ t] exI [of _ todo] exI [of _ dueDate] exI [of _ ?rs] conjI refl)
      qed
    qed
  qed
qed

lemma createTodo_cases:
  "(\<exists>e. createTodo api i now txt l n d s = Fault e s) \<or>
   (\<exists>t r. todos s = Some t \<and> row_notes r = or_null n \<and>
      createTodo api i now txt l n d s
        = Ok (Some (to_item api r)) (s\<lparr>todos := Some (t\<lparr>rows := rows t @ [r]\<rparr>)\<rparr>) \<and>
      row_id r = i \<and> i \<notin> set (map row_id (rows t)) \<and>
      ((\<forall>ms. iso_of api ms \<noteq> []) \<longrightarrow> row_dueDate r \<noteq> Some []))"
proof -
  let ?due = "case d of None \<Rightarrow> Inr None
      | Some x \<Rightarrow> (case toISOString api x of Inl e \<Rightarrow> Inl e | Inr y \<Rightarrow> Inr (Some y))"
  show ?thesis
  proof (cases ?due)
    case (Inl e)
    then show ?thesis by (simp add: createTodo_def Let_def)
  next
    case (Inr dueDateString)
    note due = this
    show ?thesis
    proof (cases "todos s")
      case None
      with due show ?thesis by (simp add: createTodo_def insert_todo_returning_def Let_def)
    next
      case (Some t)
      let ?r = "\<lparr>row_id = i, row_text = txt, row_done = 0, row_createdAt = iso_of api now,
                 row_listId = Some (case l of None \<Rightarrow> ''default-list'' | Some x \<Rightarrow> x),
                 row_notes = or_null n, row_dueDate = dueDateString\<rparr>"
      show ?thesis
      proof (cases "has_v2_columns t \<and> i \<notin> set (map row_id (rows t))")
        case False
        with due Some show ?thesis
          by (auto simp: createTodo_def insert_todo_returning_def Let_def)
      next
        case True
        then have fresh: "i \<notin> set (map row_id (rows t))" by simp
        from True due Some have res: "createTodo api i now txt l n d s
            = Ok (Some (to_item api ?r)) (s\<lparr>todos := Some (t\<lparr>rows := rows t @ [?r]\<rparr>)\<rparr>)"
          by (simp add: createTodo_def insert_todo_returning_def getFirst_def Let_def)
        have n: "row_notes ?r = or_null n" and i: "row_id ?r = i" by simp_all
        have dd: "(\<forall>ms. iso_of api ms \<noteq> []) \<longrightarrow> row_dueDate ?r \<noteq> Some []"
        proof (cases d)
          case None
          with due show ?thesis by auto
        next
          case (Some x)
          with due show ?thesis by (cases x) (auto simp: toISOString_def)
        qed
        show ?thesis
          by (intro disjI2 exI [of _ t] exI [of _ ?r] conjI Some n res i fresh dd)
      qed
    qed
  qed
qed

lemma updateTodoStatus_cases:
  "(\<exists>e. updateTodoStatus api i b s = Fault e s) \<or>
   (\<exists>t rs. todos s = Some t \<and>
      rs = map (\<lambda>r. if row_id r = i then r\<lparr>row_done := (if b then 1 else 0)\<rparr> else r) (rows t) \<and>
      updateTodoStatus api i b s
        = Ok (map_option (to_item api) (getFirst (filter (\<lambda>r. row_id r = i) rs)))
             (s\<lparr>todos := Some (t\<lparr>rows := rs\<rparr>)\<rparr>))"
  by (cases "todos s")
     (auto simp: updateTodoStatus_def update_done_returning_def Let_def split: option.splits)

lemma createList_todos: "todos (store_of (createList i n s)) = todos s"
  by (cases "todo_lists s") (auto simp: createList_def insert_list_returning_def insert_list_def)

lemma migrateDB_preserves:
  assumes ins: "\<And>i txt d c x x'. P x \<Longrightarrow> insert_todo4 i txt d c x = Inr x' \<Longrightarrow> P x'"
    and cr: "\<And>x x'. P x \<Longrightarrow> create_todos x = Inr x' \<Longrightarrow> P x'"
    and c: "\<And>x x'. P x \<Longrightarrow> create_todo_lists x = Inr x' \<Longrightarrow> P x'"
    and a1: "\<And>x x'. P x \<Longrightarrow> add_listId x = Inr x' \<Longrightarrow> P x'"
    and a2: "\<And>x x'. P x \<Longrightarrow> add_notes x = Inr x' \<Longrightarrow> P x'"
    and a3: "\<And>x x'. P x \<Longrightarrow> add_dueDate x = Inr x' \<Longrightarrow> P x'"
    and i: "\<And>x x'. P x \<Longrightarrow> insert_list ''default-list'' ''Todas as Tarefas'' x = Inr x' \<Longrightarrow> P x'"
    and b: "\<And>x x'. P x \<Longrightarrow> backfill_listId x = Inr x' \<Longrightarrow> P x'"
    and v: "\<And>x. P x \<Longrightarrow> P (x\<lparr>user_version := DATABASE_VERSION\<rparr>)"
    and s: "P s"
  shows "P (store_of (migrateDB ids s))"
proof -
  have init: "P (store_of (initializeDB ids x))" if "P x" for x
    using ins cr that by (rule initializeDB_preserves)
  have upg: "P (store_of (upgradeToVersion2 x))" if "P x" for x
    using c a1 a2 a3 i b that by (rule upgradeToVersion2_preserves)
  have r1: "P (store_of (run_initial ids cur x))" if "P x" for cur x
    using init [OF that] that by (auto simp: run_initial_def split: outcome.splits)
  have r2: "P (store_of (run_upgrade cur x))" if "P x" for cur x
    using upg [OF that] that by (auto simp: run_upgrade_def split: outcome.splits)
  show ?thesis
  proof (cases "currentDbVersion s = DATABASE_VERSION")
    case True
    with s show ?thesis by (simp add: migrateDB_def)
  next
    case False
    show ?thesis
    proof (cases "run_initial ids (currentDbVersion s) s")
      case (Fault e s1)
      with r1 [OF s, of "currentDbVersion s"] False show ?thesis by (simp add: migrateDB_def)
    next
      case (Ok cur1 s1)
      with r1 [OF s, of "currentDbVersion s"] have p1: "P s1" by simp
      show ?thesis
      proof (cases "run_upgrade cur1 s1")
        case (Fault e s2)
        with r2 [OF p1, of cur1] False Ok show ?thesis by (simp add: migrateDB_def)
      next
        case (Ok cur2 s2)
        with r2 [OF p1, of cur1] have "P s2" by simp
        then have "P (s2\<lparr>user_version := DATABASE_VERSION\<rparr>)" by (rule v)
        with False \<open>run_initial ids (currentDbVersion s) s = Ok cur1 s1\<close> Ok show ?thesis
          by (simp add: migrateDB_def set_user_version_def)
      qed
    qed
  qed
qed

section \<open>Notes are never stored as the empty string\<close>

lemma notes_ok_iff:
  "notes_ok s = (\<forall>t. todos s = Some t \<longrightarrow> (\<forall>r \<in> set (rows t). row_notes r \<noteq> Some []))"
  by (cases "todos s") (simp_all add: notes_ok_def todo_rows_def list_all_iff)

lemma notes_ok_None: "todos s = None \<Longrightarrow> notes_ok s"
  by (simp add: notes_ok_def todo_rows_def)

lemma notes_ok_Some:
  "todos s = Some t \<Longrightarrow> notes_ok s = (\<forall>r \<in> set (rows t). row_notes r \<noteq> Some [])"
  by (simp add: notes_ok_def todo_rows_def list_all_iff)

lemma notes_ok_cong: "todos s' = todos s \<Longrightarrow> notes_ok s' = notes_ok s"
  by (simp add: notes_ok_def todo_rows_def)

lemma stmt_notes_ok1: "notes_ok s \<Longrightarrow> create_todos s = Inr s' \<Longrightarrow> notes_ok s'"
  by (cases "todos s") (auto simp: create_todos_def notes_ok_def todo_rows_def)

lemma stmt_notes_ok2: "notes_ok s \<Longrightarrow> insert_todo4 i tx d c s = Inr s' \<Longrightarrow> notes_ok s'"
  by (cases "todos s") (auto simp: insert_todo4_def notes_ok_def todo_rows_def split: if_splits)

lemma stmt_notes_ok3: "notes_ok s \<Longrightarrow> create_todo_lists s = Inr s' \<Longrightarrow> notes_ok s'"
  by (cases "todo_lists s") (auto simp: create_todo_lists_def notes_ok_def todo_rows_def)

lemma stmt_notes_ok4: "notes_ok s \<Longrightarrow> add_listId s = Inr s' \<Longrightarrow> notes_ok s'"
  by (cases "todos s")
     (auto simp: add_listId_def notes_ok_def todo_rows_def list_all_iff split: if_splits)

lemma stmt_notes_ok5: "notes_ok s \<Longrightarrow> add_notes s = Inr s' \<Longrightarrow> notes_ok s'"
  by (cases "todos s")
     (auto simp: add_notes_def notes_ok_def todo_rows_def list_all_iff split: if_splits)

lemma stmt_notes_ok6: "notes_ok s \<Longrightarrow> add_dueDate s = Inr s' \<Longrightarrow> notes_ok s'"
  by (cases "todos s")
     (auto simp: add_dueDate_def notes_ok_def todo_rows_def list_all_iff split: if_splits)

lemma stmt_notes_ok7: "notes_ok s \<Longrightarrow> insert_list j n s = Inr s' \<Longrightarrow> notes_ok s'"
  by (cases "todo_lists s")
     (auto simp: insert_list_def notes_ok_def todo_rows_def split: if_splits)

lemma stmt_notes_ok8: "notes_ok s \<Longrightarrow> backfill_listId s = Inr s' \<Longrightarrow> notes_ok s'"
  by (cases "todos s")
     (auto simp: backfill_listId_def notes_ok_def todo_rows_def list_all_iff split: if_splits)

lemmas stmt_notes_ok = stmt_notes_ok1 stmt_notes_ok2 stmt_notes_ok3 stmt_notes_ok4
  stmt_notes_ok5 stmt_notes_ok6 stmt_notes_ok7 stmt_notes_ok8

lemma migrateDB_notes_ok:
  assumes "notes_ok s"
  shows "notes_ok (store_of (migrateDB ids s))"
proof (rule migrateDB_preserves [where P = notes_ok])
  show "notes_ok (x\<lparr>user_version := DATABASE_VERSION\<rparr>)" if "notes_ok x" for x
    using that by (simp add: notes_ok_cong [of "x\<lparr>user_version := DATABASE_VERSION\<rparr>" x])
qed (fact assms | erule stmt_notes_ok, assumption)+

lemma createTodo_notes_ok:
  assumes "notes_ok s"
  shows "notes_ok (store_of (createTodo api i now tx l n d s))"
proof -
  from createTodo_cases [of api i now tx l n d s]
  consider e where "createTodo api i now tx l n d s = Fault e s"
    | t r where "todos s = Some t" "row_notes r = or_null n"
        "createTodo api i now tx l n d s
           = Ok (Some (to_item api r)) (s\<lparr>todos := Some (t\<lparr>rows := rows t @ [r]\<rparr>)\<rparr>)"
    by blast
  then show ?thesis
  proof cases
    case 1
    with assms show ?thesis by simp
  next
    case 2
    with assms show ?thesis by (simp add: notes_ok_def todo_rows_def or_null_not_empty)
  qed
qed

lemma updateTodo_store:
  "store_of (updateTodo api i u s) = s \<or>
   (\<exists>t f n. todos s = Some t \<and>
      store_of (updateTodo api i u s)
        = s\<lparr>todos := Some (t\<lparr>rows := map (\<lambda>r. if row_id r = i then (f r)\<lparr>row_notes := or_null n\<rparr> else r)
                                      (rows t)\<rparr>)\<rparr>)"
proof -
  note cases = updateTodo_cases [of api i u s]
  from cases show ?thesis
  proof (elim disjE exE conjE)
    assume "updateTodo api i u s = Ok None s"
    then show ?thesis by simp
  next
    fix e assume "updateTodo api i u s = Fault e s"
    then show ?thesis by simp
  next
    fix t todo dueDate rs
    assume t: "todos s = Some t"
      and rs: "rs = map (\<lambda>r. if row_id r = i
                    then r\<lparr>row_text := (case upd_text u of None \<Rightarrow> row_text todo | Some x \<Rightarrow> x),
                           row_notes := or_null (case upd_notes u of None \<Rightarrow> row_notes todo
                                                 | Some x \<Rightarrow> Some x),
                           row_dueDate := dueDate,
                           row_listId := (case upd_listId u of None \<Rightarrow> row_listId todo
                                          | Some x \<Rightarrow> Some x)\<rparr>
                    else r) (rows t)"
      and res: "updateTodo api i u s
        = Ok (map_option (to_item api) (getFirst (filter (\<lambda>r. row_id r = i) rs)))
             (s\<lparr>todos := Some (t\<lparr>rows := rs\<rparr>)\<rparr>)"
    let ?f = "\<lambda>r. r\<lparr>row_text := (case upd_text u of None \<Rightarrow> row_text todo | Some x \<Rightarrow> x),
                      row_dueDate := dueDate,
                      row_listId := (case upd_listId u of None \<Rightarrow> row_listId todo
                                     | Some x \<Rightarrow> Some x)\<rparr>"
    let ?n = "case upd_notes u of None \<Rightarrow> row_notes todo | Some x \<Rightarrow> Some x"
    have "store_of (updateTodo api i u s)
        = s\<lparr>todos := Some (t\<lparr>rows := map (\<lambda>r. if row_id r = i then (?f r)\<lparr>row_notes := or_null ?n\<rparr> else r)
                                      (rows t)\<rparr>)\<rparr>"
      by (simp add: res rs)
    with t show ?thesis
      by (intro disjI2 exI [of _ t] exI [of _ ?f] exI [of _ ?n] conjI)
  qed
qed

lemma list_all_map_if:
  assumes "list_all P xs" and "\<And>x. P x \<Longrightarrow> P (f x)"
  shows "list_all P (map (\<lambda>x. if Q x then f x else x) xs)"
  using assms by (induction xs) auto

lemma list_all_map_id_notes:
  assumes "\<And>x. row_notes (g x) = n"
  shows "list_all (\<lambda>r. row_id r = i \<longrightarrow> row_notes r = n)
           (map (\<lambda>r. if row_id r = i then g r else r) xs)"
  using assms by (induction xs) auto

lemma updateTodo_notes_ok:
  assumes "notes_ok s"
  shows "notes_ok (store_of (updateTodo api i u s))"
  using updateTodo_store [of api i u s]
proof (elim disjE exE conjE)
  assume "store_of (updateTodo api i u s) = s"
  with assms show ?thesis by simp
next
  fix t f n
  assume t: "todos s = Some t"
    and st: "store_of (updateTodo api i u s)
        = s\<lparr>todos := Some (t\<lparr>rows := map (\<lambda>r. if row_id r = i then (f r)\<lparr>row_notes := or_null n\<rparr> else r)
                                      (rows t)\<rparr>)\<rparr>"
  from assms t have "list_all (\<lambda>r. row_notes r \<noteq> Some []) (rows t)"
    by (simp add: notes_ok_def todo_rows_def)
  then have "list_all (\<lambda>r. row_notes r \<noteq> Some [])
      (map (\<lambda>r. if row_id r = i then (f r)\<lparr>row_notes := or_null n\<rparr> else r) (rows t))"
    by (rule list_all_map_if) (simp add: or_null_not_empty)
  then show ?thesis
    unfolding st by (simp add: notes_ok_def todo_rows_def)
qed

lemma updateTodoStatus_notes_ok:
  assumes "notes_ok s"
  shows "notes_ok (store_of (updateTodoStatus api i b s))"
  using updateTodoStatus_cases [of api i b s]
proof (elim disjE exE conjE)
  fix e assume "updateTodoStatus api i b s = Fault e s"
  with assms show ?thesis by simp
next
  fix t rs
  assume t: "todos s = Some t"
    and rs: "rs = map (\<lambda>r. if row_id r = i then r\<lparr>row_done := (if b then 1 else 0)\<rparr> else r) (rows t)"
    and res: "updateTodoStatus api i b s
        = Ok (map_option (to_item api) (getFirst (filter (\<lambda>r. row_id r = i) rs)))
             (s\<lparr>todos := Some (t\<lparr>rows := rs\<rparr>)\<rparr>)"
  from assms t have "list_all (\<lambda>r. row_notes r \<noteq> Some []) (rows t)"
    by (simp add: notes_ok_def todo_rows_def)
  then have "list_all (\<lambda>r. row_notes r \<noteq> Some []) rs"
    unfolding rs by (rule list_all_map_if) simp
  then show ?thesis
    unfolding res by (simp add: notes_ok_def todo_rows_def)
qed

lemma createList_notes_ok:
  "notes_ok s \<Longrightarrow> notes_ok (store_of (createList i n s))"
  by (simp add: notes_ok_cong [OF createList_todos])

lemma createTodo_notes:
  assumes "createTodo api i now tx l n d s = Ok (Some item) s'"
  shows "item_notes item = or_null n \<and> (\<exists>r. todo_rows s' = todo_rows s @ [r] \<and> row_notes r = or_null n)"
  using createTodo_cases [of api i now tx l n d s]
proof (elim disjE exE conjE)
  fix e assume "createTodo api i now tx l n d s = Fault e s"
  with assms show ?thesis by simp
next
  fix t r
  assume t: "todos s = Some t" and n: "row_notes r = or_null n"
    and res: "createTodo api i now tx l n d s
         = Ok (Some (to_item api r)) (s\<lparr>todos := Some (t\<lparr>rows := rows t @ [r]\<rparr>)\<rparr>)"
  from res assms have item: "item = to_item api r"
    and s': "s' = s\<lparr>todos := Some (t\<lparr>rows := rows t @ [r]\<rparr>)\<rparr>"
    by simp_all
  have "item_notes item = or_null n" by (simp add: item to_item_def n)
  moreover have "todo_rows s' = todo_rows s @ [r]" by (simp add: s' todo_rows_def t)
  ultimately show ?thesis using n by blast
qed

lemma or_null_not_empty': "Some [] \<noteq> or_null v"
  using or_null_not_empty [of v] by simp

lemma updateTodo_notes:
  assumes "updateTodo api i u s = Ok (Some item) s'"
  shows "\<exists>todo. getFirst (filter (\<lambda>r. row_id r = i) (todo_rows s)) = Some todo \<and>
           item_notes item = or_null (case upd_notes u of None \<Rightarrow> row_notes todo | Some x \<Rightarrow> Some x) \<and>
           list_all (\<lambda>r. row_id r = i \<longrightarrow> row_notes r = item_notes item) (todo_rows s')"
  using updateTodo_cases [of api i u s]
proof (elim disjE exE conjE)
  assume "updateTodo api i u s = Ok None s"
  with assms show ?thesis by simp
next
  fix e assume "updateTodo api i u s = Fault e s"
  with assms show ?thesis by simp
next
  fix t todo dueDate rs
  assume t: "todos s = Some t"
    and todo: "getFirst (filter (\<lambda>r. row_id r = i) (rows t)) = Some todo"
    and rs: "rs = map (\<lambda>r. if row_id r = i
                    then r\<lparr>row_text := (case upd_text u of None \<Rightarrow> row_text todo | Some x \<Rightarrow> x),
                           row_notes := or_null (case upd_notes u of None \<Rightarrow> row_notes todo
                                                 | Some x \<Rightarrow> Some x),
                           row_dueDate := dueDate,
                           row_listId := (case upd_listId u of None \<Rightarrow> row_listId todo
                                          | Some x \<Rightarrow> Some x)\<rparr>
                    else r) (rows t)"
    and res: "updateTodo api i u s
        = Ok (map_option (to_item api) (getFirst (filter (\<lambda>r. row_id r = i) rs)))
             (s\<lparr>todos := Some (t\<lparr>rows := rs\<rparr>)\<rparr>)"
  let ?n = "or_null (case upd_notes u of None \<Rightarrow> row_notes todo | Some x \<Rightarrow> Some x)"
  have all': "list_all (\<lambda>r. row_id r = i \<longrightarrow> row_notes r = ?n) rs"
    unfolding rs by (rule list_all_map_id_notes) simp
  then have all: "\<forall>r \<in> set rs. row_id r = i \<longrightarrow> row_notes r = ?n"
    by (simp only: list_all_iff)
  from res assms have eq: "map_option (to_item api) (getFirst (filter (\<lambda>r. row_id r = i) rs)) = Some item"
    and s': "s' = s\<lparr>todos := Some (t\<lparr>rows := rs\<rparr>)\<rparr>"
    by simp_all
  from eq obtain result where first: "getFirst (filter (\<lambda>r. row_id r = i) rs) = Some result"
    and item: "item = to_item api result"
    by (cases "getFirst (filter (\<lambda>r. row_id r = i) rs)") auto
  from getFirst_filter_Some [OF first] all have "row_notes result = ?n" by blast
  then have n: "item_notes item = ?n" by (simp add: item to_item_def)
  have rows': "list_all (\<lambda>r. row_id r = i \<longrightarrow> row_notes r = item_notes item) (todo_rows s')"
    using all' n by (simp add: s' todo_rows_def)
  have first': "getFirst (filter (\<lambda>r. row_id r = i) (todo_rows s)) = Some todo"
    using t todo by (simp add: todo_rows_def)
  show ?thesis by (intro exI [of _ todo] conjI first' n rows')
qed

lemma reads_store:
  "store_of (getAllTodos api s) = s"
  "store_of (getTodosByList api q s) = s"
  "store_of (getAllLists s) = s"
  "store_of (getDBVersion s) = s"
  by (simp_all add: getAllTodos_def getTodosByList_def getAllLists_def getDBVersion_def
      split: sum.splits)

text \<open>
  C10. No write operation stores an empty-string \<open>notes\<close>. Every operation that changes
  the store (\<open>createTodo\<close>, \<open>updateTodo\<close>, \<open>updateTodoStatus\<close>, \<open>createList\<close>, \<open>migrateDB\<close>)
  preserves the invariant that every stored \<open>notes\<close> is NULL or non-empty, whether it
  resolves or faults, and so do the reads, which leave the store as it is. When \<open>createTodo\<close> is given the empty string as \<open>notes\<close>, the record
  it returns and the row it appends have \<open>notes\<close> absent. When \<open>updateTodo\<close> resolves with
  a record, the record's \<open>notes\<close> is not the empty string, every row with the task's id
  stores the same \<open>notes\<close> as the record, and if the merged value (the given \<open>notes\<close>, or
  the stored one when none is given) is the empty string, the record's \<open>notes\<close> is absent.
\<close>

theorem notes_never_empty:
  "(notes_ok s \<longrightarrow>
      notes_ok (store_of (createTodo api i now tx l n d s)) \<and>
      notes_ok (store_of (updateTodo api k u s)) \<and>
      notes_ok (store_of (updateTodoStatus api k b s)) \<and>
      notes_ok (store_of (createList j nm s)) \<and>
      notes_ok (store_of (migrateDB ids s)) \<and>
      notes_ok (store_of (getAllTodos api s)) \<and>
      notes_ok (store_of (getTodosByList api q s)) \<and>
      notes_ok (store_of (getAllLists s)) \<and>
      notes_ok (store_of (getDBVersion s))) \<and>
   (\<forall>item s'. createTodo api i now tx l (Some []) d s = Ok (Some item) s' \<longrightarrow>
      item_notes item = None \<and> (\<exists>r. todo_rows s' = todo_rows s @ [r] \<and> row_notes r = None)) \<and>
   (\<forall>item s'. updateTodo api k u s = Ok (Some item) s' \<longrightarrow>
      item_notes item \<noteq> Some [] \<and>
      list_all (\<lambda>r. row_id r = k \<longrightarrow> row_notes r = item_notes item) (todo_rows s') \<and>
      (\<forall>todo. getFirst (filter (\<lambda>r. row_id r = k) (todo_rows s)) = Some todo \<and>
              (case upd_notes u of None \<Rightarrow> row_notes todo | Some x \<Rightarrow> Some x) = Some []
          \<longrightarrow> item_notes item = None))"
proof (intro conjI impI allI)
  fix item s'
  assume "createTodo api i now tx l (Some []) d s = Ok (Some item) s'"
  from createTodo_notes [OF this]
  show "item_notes item = None" and "\<exists>r. todo_rows s' = todo_rows s @ [r] \<and> row_notes r = None"
    by (simp_all add: or_null_def truthy_def)
next
  fix item s'
  assume a: "updateTodo api k u s = Ok (Some item) s'"
  from updateTodo_notes [OF a]
  show "item_notes item \<noteq> Some []"
    using or_null_not_empty by metis
  from updateTodo_notes [OF a]
  show "list_all (\<lambda>r. row_id r = k \<longrightarrow> row_notes r = item_notes item) (todo_rows s')"
    by blast
  fix todo
  assume "getFirst (filter (\<lambda>r. row_id r = k) (todo_rows s)) = Some todo \<and>
          (case upd_notes u of None \<Rightarrow> row_notes todo | Some x \<Rightarrow> Some x) = Some []"
  with updateTodo_notes [OF a]
  show "item_notes item = None"
    by (auto simp: or_null_def truthy_def split: if_splits)
qed (simp_all add: createTodo_notes_ok updateTodo_notes_ok updateTodoStatus_notes_ok
      createList_notes_ok migrateDB_notes_ok reads_store)

theorem notes_never_empty_witness:
  "notes_ok store_at_2 \<and>
   notes_ok (store_of (createTodo demo_dates ''t3'' 0 ''call Ana'' None (Some []) None store_at_2)) \<and>
   (\<exists>item s'. createTodo demo_dates ''t3'' 0 ''call Ana'' None (Some []) None store_at_2
                 = Ok (Some item) s' \<and> item_notes item = None) \<and>
   (\<exists>item s'. updateTodo demo_dates ''t1''
                 \<lparr>upd_text = None, upd_notes = Some [], upd_dueDate = None, upd_listId = None\<rparr>
                 store_at_2 = Ok (Some item) s' \<and>
               getFirst (filter (\<lambda>r. row_id r = ''t1'') (todo_rows store_at_2)) = Some task1 \<and>
               item_notes item = None)"
proof -
  let ?u = "\<lparr>upd_text = None, upd_notes = Some [], upd_dueDate = None, upd_listId = None\<rparr>"
  note inst = notes_never_empty [where s = store_at_2 and api = demo_dates and i = "''t3''"
      and now = 0 and tx = "''call Ana''" and l = None and d = None and k = "''t1''"
      and u = ?u and b = True and j = "''l9''" and nm = "''Home''"
      and ids = "(''id-1'', ''id-2'', ''id-3'')" and n = "Some []" and q = None]
  have h: "notes_ok store_at_2"
    by (simp add: notes_ok_def todo_rows_def example_defs)
  have c: "\<exists>item s'. createTodo demo_dates ''t3'' 0 ''call Ana'' None (Some []) None store_at_2
      = Ok (Some item) s'"
    by (simp add: createTodo_def insert_todo_returning_def getFirst_def has_v2_columns_def
        Let_def example_defs)
  have up: "\<exists>item s'. updateTodo demo_dates ''t1'' ?u store_at_2 = Ok (Some item) s'"
    by (simp add: updateTodo_def select_todos_by_id_def update_fields_returning_def getFirst_def
        has_v2_columns_def Let_def example_defs)
  have first: "getFirst (filter (\<lambda>r. row_id r = ''t1'') (todo_rows store_at_2)) = Some task1"
    by (simp add: getFirst_def todo_rows_def example_defs)
  from inst h
  have w1: "notes_ok (store_of (createTodo demo_dates ''t3'' 0 ''call Ana'' None (Some []) None
      store_at_2))"
    by blast
  from inst c
  have w2: "\<exists>item s'. createTodo demo_dates ''t3'' 0 ''call Ana'' None (Some []) None store_at_2
                 = Ok (Some item) s' \<and> item_notes item = None"
    by blast
  from up obtain item s' where ok: "updateTodo demo_dates ''t1'' ?u store_at_2 = Ok (Some item) s'"
    by blast
  have merged: "(case upd_notes ?u of None \<Rightarrow> row_notes task1 | Some x \<Rightarrow> Some x) = Some []"
    by simp
  from inst ok first merged have "item_notes item = None" by blast
  with ok first
  have w3: "\<exists>item s'. updateTodo demo_dates ''t1'' ?u store_at_2 = Ok (Some item) s' \<and>
               getFirst (filter (\<lambda>r. row_id r = ''t1'') (todo_rows store_at_2)) = Some task1 \<and>
               item_notes item = None"
    by blast
  from h w1 w2 w3 show ?thesis by (intro conjI)
qed

section \<open>The well-formed store is an invariant\<close>

text \<open>
  The hypotheses of the theorems above about the data layer (version-2 columns present,
  unique ids, no empty \<open>notes\<close> or \<open>dueDate\<close>) are those of \<open>wf_store\<close>. A migration that
  resolves from version 0 or 1 establishes it, and \<open>createTodo\<close>, \<open>updateTodo\<close>,
  \<open>updateTodoStatus\<close> and \<open>createList\<close> preserve it, provided \<open>toISOString\<close> never returns
  the empty string.
\<close>

lemma pk_ok_cong: "todos s' = todos s \<Longrightarrow> pk_ok s' = pk_ok s"
  by (simp add: pk_ok_def todo_rows_def)

lemma dueDate_ok_cong: "todos s' = todos s \<Longrightarrow> dueDate_ok s' = dueDate_ok s"
  by (simp add: dueDate_ok_def todo_rows_def)

lemma todos_ready_cong: "todos s' = todos s \<Longrightarrow> todos_ready s' = todos_ready s"
  by (simp add: todos_ready_def)

lemma stmt_pk_ok1: "pk_ok s \<Longrightarrow> create_todos s = Inr s' \<Longrightarrow> pk_ok s'"
  by (cases "todos s") (auto simp: create_todos_def pk_ok_def todo_rows_def)

lemma stmt_pk_ok2: "pk_ok s \<Longrightarrow> insert_todo4 i tx d c s = Inr s' \<Longrightarrow> pk_ok s'"
  by (cases "todos s") (auto simp: insert_todo4_def pk_ok_def todo_rows_def split: if_splits)

lemma stmt_pk_ok3: "pk_ok s \<Longrightarrow> create_todo_lists s = Inr s' \<Longrightarrow> pk_ok s'"
  by (cases "todo_lists s") (auto simp: create_todo_lists_def pk_ok_def todo_rows_def)

lemma stmt_pk_ok4: "pk_ok s \<Longrightarrow> add_listId s = Inr s' \<Longrightarrow> pk_ok s'"
  by (cases "todos s")
     (auto simp: add_listId_def pk_ok_def todo_rows_def ids_map_comp split: if_splits)

lemma stmt_pk_ok5: "pk_ok s \<Longrightarrow> add_notes s = Inr s' \<Longrightarrow> pk_ok s'"
  by (cases "todos s")
     (auto simp: add_notes_def pk_ok_def todo_rows_def ids_map_comp split: if_splits)

lemma stmt_pk_ok6: "pk_ok s \<Longrightarrow> add_dueDate s = Inr s' \<Longrightarrow> pk_ok s'"
  by (cases "todos s")
     (auto simp: add_dueDate_def pk_ok_def todo_rows_def ids_map_comp split: if_splits)

lemma stmt_pk_ok7: "pk_ok s \<Longrightarrow> insert_list j n s = Inr s' \<Longrightarrow> pk_ok s'"
  by (cases "todo_lists s")
     (auto simp: insert_list_def pk_ok_def todo_rows_def split: if_splits)

lemma stmt_pk_ok8: "pk_ok s \<Longrightarrow> backfill_listId s = Inr s' \<Longrightarrow> pk_ok s'"
  by (cases "todos s")
     (auto simp: backfill_listId_def pk_ok_def todo_rows_def ids_map_comp split: if_splits)

lemmas stmt_pk_ok = stmt_pk_ok1 stmt_pk_ok2 stmt_pk_ok3 stmt_pk_ok4
  stmt_pk_ok5 stmt_pk_ok6 stmt_pk_ok7 stmt_pk_ok8

lemma migrateDB_pk_ok:
  assumes "pk_ok s"
  shows "pk_ok (store_of (migrateDB ids s))"
proof (rule migrateDB_preserves [where P = pk_ok])
  show "pk_ok (x\<lparr>user_version := DATABASE_VERSION\<rparr>)" if "pk_ok x" for x
    using that by (simp add: pk_ok_cong [of "x\<lparr>user_version := DATABASE_VERSION\<rparr>" x])
qed (fact assms | erule stmt_pk_ok, assumption)+

lemma stmt_dueDate_ok1: "dueDate_ok s \<Longrightarrow> create_todos s = Inr s' \<Longrightarrow> dueDate_ok s'"
  by (cases "todos s") (auto simp: create_todos_def dueDate_ok_def todo_rows_def)

lemma stmt_dueDate_ok2: "dueDate_ok s \<Longrightarrow> insert_todo4 i tx d c s = Inr s' \<Longrightarrow> dueDate_ok s'"
  by (cases "todos s") (auto simp: insert_todo4_def dueDate_ok_def todo_rows_def split: if_splits)

lemma stmt_dueDate_ok3: "dueDate_ok s \<Longrightarrow> create_todo_lists s = Inr s' \<Longrightarrow> dueDate_ok s'"
  by (cases "todo_lists s") (auto simp: create_todo_lists_def dueDate_ok_def todo_rows_def)

lemma stmt_dueDate_ok4: "dueDate_ok s \<Longrightarrow> add_listId s = Inr s' \<Longrightarrow> dueDate_ok s'"
  by (cases "todos s")
     (auto simp: add_listId_def dueDate_ok_def todo_rows_def list_all_iff split: if_splits)

lemma stmt_dueDate_ok5: "dueDate_ok s \<Longrightarrow> add_notes s = Inr s' \<Longrightarrow> dueDate_ok s'"
  by (cases "todos s")
     (auto simp: add_notes_def dueDate_ok_def todo_rows_def list_all_iff split: if_splits)

lemma stmt_dueDate_ok6: "dueDate_ok s \<Longrightarrow> add_dueDate s = Inr s' \<Longrightarrow> dueDate_ok s'"
  by (cases "todos s")
     (auto simp: add_dueDate_def dueDate_ok_def todo_rows_def list_all_iff split: if_splits)

lemma stmt_dueDate_ok7: "dueDate_ok s \<Longrightarrow> insert_list j n s = Inr s' \<Longrightarrow> dueDate_ok s'"
  by (cases "todo_lists s")
     (auto simp: insert_list_def dueDate_ok_def todo_rows_def split: if_splits)

lemma stmt_dueDate_ok8: "dueDate_ok s \<Longrightarrow> backfill_listId s = Inr s' \<Longrightarrow> dueDate_ok s'"
  by (cases "todos s")
     (auto simp: backfill_listId_def dueDate_ok_def todo_rows_def list_all_iff split: if_splits)

lemmas stmt_dueDate_ok = stmt_dueDate_ok1 stmt_dueDate_ok2 stmt_dueDate_ok3 stmt_dueDate_ok4
  stmt_dueDate_ok5 stmt_dueDate_ok6 stmt_dueDate_ok7 stmt_dueDate_ok8

lemma migrateDB_dueDate_ok:
  assumes "dueDate_ok s"
  shows "dueDate_ok (store_of (migrateDB ids s))"
proof (rule migrateDB_preserves [where P = dueDate_ok])
  show "dueDate_ok (x\<lparr>user_version := DATABASE_VERSION\<rparr>)" if "dueDate_ok x" for x
    using that by (simp add: dueDate_ok_cong [of "x\<lparr>user_version := DATABASE_VERSION\<rparr>" x])
qed (fact assms | erule stmt_dueDate_ok, assumption)+

lemma wf_storeI:
  assumes "todos s = Some t" and "has_v2_columns t" and "distinct (map row_id (rows t))"
    and "list_all (\<lambda>r. row_notes r \<noteq> Some []) (rows t)"
    and "list_all (\<lambda>r. row_dueDate r \<noteq> Some []) (rows t)"
  shows "wf_store s"
  using assms
  by (simp add: wf_store_def todos_ready_def pk_ok_def notes_ok_def dueDate_ok_def todo_rows_def)

lemma wf_storeD:
  assumes "wf_store s"
  obtains t where "todos s = Some t" and "has_v2_columns t" and "distinct (map row_id (rows t))"
    and "list_all (\<lambda>r. row_notes r \<noteq> Some []) (rows t)"
    and "list_all (\<lambda>r. row_dueDate r \<noteq> Some []) (rows t)"
proof (cases "todos s")
  case None
  with assms show ?thesis by (simp add: wf_store_def todos_ready_def)
next
  case (Some t)
  with assms that [of t] show ?thesis
    by (simp add: wf_store_def todos_ready_def pk_ok_def notes_ok_def dueDate_ok_def todo_rows_def)
qed

lemma has_v2_columns_rows: "has_v2_columns (t\<lparr>rows := rs\<rparr>) = has_v2_columns t"
  by (simp add: has_v2_columns_def)

lemma createTodo_wf:
  assumes wf: "wf_store s" and iso: "\<And>ms. iso_of api ms \<noteq> []"
  shows "wf_store (store_of (createTodo api i now tx l n d s))"
  using createTodo_cases [of api i now tx l n d s]
proof (elim disjE exE conjE)
  fix e assume "createTodo api i now tx l n d s = Fault e s"
  with wf show ?thesis by simp
next
  fix t r
  assume t: "todos s = Some t" and n: "row_notes r = or_null n"
    and res: "createTodo api i now tx l n d s
         = Ok (Some (to_item api r)) (s\<lparr>todos := Some (t\<lparr>rows := rows t @ [r]\<rparr>)\<rparr>)"
    and id: "row_id r = i" and fresh: "i \<notin> set (map row_id (rows t))"
    and due: "(\<forall>ms. iso_of api ms \<noteq> []) \<longrightarrow> row_dueDate r \<noteq> Some []"
  from wf obtain t' where t': "todos s = Some t'" "has_v2_columns t'"
      "distinct (map row_id (rows t'))" "list_all (\<lambda>r. row_notes r \<noteq> Some []) (rows t')"
      "list_all (\<lambda>r. row_dueDate r \<noteq> Some []) (rows t')"
    by (rule wf_storeD)
  with t have tt: "t' = t" by simp
  have d: "row_dueDate r \<noteq> Some []" using due iso by simp
  have "wf_store (s\<lparr>todos := Some (t\<lparr>rows := rows t @ [r]\<rparr>)\<rparr>)"
    using t' tt id fresh n d
    by (intro wf_storeI [where t = "t\<lparr>rows := rows t @ [r]\<rparr>"])
       (simp_all add: has_v2_columns_rows or_null_not_empty)
  with res show ?thesis by simp
qed

lemma updateTodo_wf:
  assumes wf: "wf_store s" and iso: "\<And>ms. iso_of api ms \<noteq> []"
  shows "wf_store (store_of (updateTodo api i u s))"
  using updateTodo_cases [of api i u s]
proof (elim disjE exE conjE)
  assume "updateTodo api i u s = Ok None s"
  with wf show ?thesis by simp
next
  fix e assume "updateTodo api i u s = Fault e s"
  with wf show ?thesis by simp
next
  fix t todo dueDate rs
  assume t: "todos s = Some t"
    and rs: "rs = map (\<lambda>r. if row_id r = i
                    then r\<lparr>row_text := (case upd_text u of None \<Rightarrow> row_text todo | Some x \<Rightarrow> x),
                           row_notes := or_null (case upd_notes u of None \<Rightarrow> row_notes todo
                                                 | Some x \<Rightarrow> Some x),
                           row_dueDate := dueDate,
                           row_listId := (case upd_listId u of None \<Rightarrow> row_listId todo
                                          | Some x \<Rightarrow> Some x)\<rparr>
                    else r) (rows t)"
    and res: "updateTodo api i u s
        = Ok (map_option (to_item api) (getFirst (filter (\<lambda>r. row_id r = i) rs)))
             (s\<lparr>todos := Some (t\<lparr>rows := rs\<rparr>)\<rparr>)"
    and due: "(\<forall>ms. iso_of api ms \<noteq> []) \<longrightarrow> dueDate \<noteq> Some []"
  from wf obtain t' where t': "todos s = Some t'" "has_v2_columns t'"
      "distinct (map row_id (rows t'))" "list_all (\<lambda>r. row_notes r \<noteq> Some []) (rows t')"
      "list_all (\<lambda>r. row_dueDate r \<noteq> Some []) (rows t')"
    by (rule wf_storeD)
  with t have tt: "t' = t" by simp
  have d: "dueDate \<noteq> Some []" using due iso by simp
  have ids: "map row_id rs = map row_id (rows t)"
    unfolding rs by (rule ids_map) simp
  have ns: "list_all (\<lambda>r. row_notes r \<noteq> Some []) rs"
    unfolding rs using t'(4) [unfolded tt] by (rule list_all_map_if) (simp add: or_null_not_empty)
  have ds: "list_all (\<lambda>r. row_dueDate r \<noteq> Some []) rs"
    unfolding rs using t'(5) [unfolded tt] by (rule list_all_map_if) (simp add: d)
  have "wf_store (s\<lparr>todos := Some (t\<lparr>rows := rs\<rparr>)\<rparr>)"
    using t' tt ids ns ds
    by (intro wf_storeI [where t = "t\<lparr>rows := rs\<rparr>"]) (simp_all add: has_v2_columns_rows)
  with res show ?thesis by simp
qed

lemma updateTodoStatus_wf:
  assumes wf: "wf_store s"
  shows "wf_store (store_of (updateTodoStatus api i b s))"
  using updateTodoStatus_cases [of api i b s]
proof (elim disjE exE conjE)
  fix e assume "updateTodoStatus api i b s = Fault e s"
  with wf show ?thesis by simp
next
  fix t rs
  assume t: "todos s = Some t"
    and rs: "rs = map (\<lambda>r. if row_id r = i then r\<lparr>row_done := (if b then 1 else 0)\<rparr> else r) (rows t)"
    and res: "updateTodoStatus api i b s
        = Ok (map_option (to_item api) (getFirst (filter (\<lambda>r. row_id r = i) rs)))
             (s\<lparr>todos := Some (t\<lparr>rows := rs\<rparr>)\<rparr>)"
  from wf obtain t' where t': "todos s = Some t'" "has_v2_columns t'"
      "distinct (map row_id (rows t'))" "list_all (\<lambda>r. row_notes r \<noteq> Some []) (rows t')"
      "list_all (\<lambda>r. row_dueDate r \<noteq> Some []) (rows t')"
    by (rule wf_storeD)
  with t have tt: "t' = t" by simp
  have ids: "map row_id rs = map row_id (rows t)"
    unfolding rs by (rule ids_map) simp
  have ns: "list_all (\<lambda>r. row_notes r \<noteq> Some []) rs"
    unfolding rs using t'(4) [unfolded tt] by (rule list_all_map_if) simp
  have ds: "list_all (\<lambda>r. row_dueDate r \<noteq> Some []) rs"
    unfolding rs using t'(5) [unfolded tt] by (rule list_all_map_if) simp
  have "wf_store (s\<lparr>todos := Some (t\<lparr>rows := rs\<rparr>)\<rparr>)"
    using t' tt ids ns ds
    by (intro wf_storeI [where t = "t\<lparr>rows := rs\<rparr>"]) (simp_all add: has_v2_columns_rows)
  with res show ?thesis by simp
qed

lemma wf_store_cong: "todos s' = todos s \<Longrightarrow> wf_store s' = wf_store s"
  by (simp add: wf_store_def todos_ready_def pk_ok_def notes_ok_def dueDate_ok_def todo_rows_def)

lemma createList_wf: "wf_store s \<Longrightarrow> wf_store (store_of (createList i n s))"
  by (simp add: wf_store_cong [OF createList_todos])

lemma migrateDB_fresh_wf:
  assumes "distinct [i1, i2, i3]"
  shows "wf_store (store_of (migrateDB (i1, i2, i3) fresh_store))"
  using assms
  by (auto simp: mig_defs stmt_defs fresh_store_def wf_store_def todos_ready_def pk_ok_def
      notes_ok_def dueDate_ok_def todo_rows_def has_v2_columns_def)

lemma wf_store_at_2: "wf_store store_at_2"
  by (simp add: wf_store_def todos_ready_def pk_ok_def notes_ok_def dueDate_ok_def todo_rows_def
      has_v2_columns_def example_defs)

lemma upgradeToVersion2_ready:
  assumes "upgradeToVersion2 s = Ok () s'"
  shows "todos_ready s'"
proof (cases "todos s")
  case None
  from upgradeToVersion2_no_todos [OF None] assms show ?thesis by auto
next
  case (Some t)
  with assms show ?thesis
    by (cases "todo_lists s")
       (auto simp: upgradeToVersion2_def try_execAsync_def stmt_defs Let_def filter_empty_conv
          todos_ready_def has_v2_columns_def split: if_splits)
qed

lemma migrateDB_ready:
  assumes v: "currentDbVersion s = 0 \<or> currentDbVersion s = 1"
    and ok: "migrateDB ids s = Ok () s'"
  shows "todos_ready s'"
proof -
  from v have nt: "currentDbVersion s \<noteq> DATABASE_VERSION" by (auto simp: DATABASE_VERSION_def)
  show ?thesis
  proof (cases "run_initial ids (currentDbVersion s) s")
    case (Fault e s1)
    with nt ok show ?thesis by (simp add: migrateDB_def)
  next
    case (Ok cur1 s1)
    note o1 = this
    have c1: "cur1 = 1" using run_initial_cur [OF o1] v by auto
    show ?thesis
    proof (cases "run_upgrade cur1 s1")
      case (Fault e s2)
      with nt ok o1 show ?thesis by (simp add: migrateDB_def)
    next
      case (Ok cur2 s2)
      with c1 have "upgradeToVersion2 s1 = Ok () s2"
        by (auto simp: run_upgrade_def split: outcome.splits)
      then have "todos_ready s2" by (rule upgradeToVersion2_ready)
      moreover from nt ok o1 Ok have "s' = s2\<lparr>user_version := DATABASE_VERSION\<rparr>"
        by (simp add: migrateDB_def set_user_version_def)
      ultimately show ?thesis by (simp add: todos_ready_def)
    qed
  qed
qed

lemma migrateDB_wf:
  assumes v: "currentDbVersion s = 0 \<or> currentDbVersion s = 1"
    and inv: "pk_ok s" "notes_ok s" "dueDate_ok s"
    and ok: "migrateDB ids s = Ok () s'"
  shows "wf_store s'"
proof -
  have "todos_ready s'" using v ok by (rule migrateDB_ready)
  moreover have "pk_ok s'" using migrateDB_pk_ok [OF inv(1), of ids] ok by simp
  moreover have "notes_ok s'" using migrateDB_notes_ok [OF inv(2), of ids] ok by simp
  moreover have "dueDate_ok s'" using migrateDB_dueDate_ok [OF inv(3), of ids] ok by simp
  ultimately show ?thesis by (simp add: wf_store_def)
qed

end
